theory Spec2Isabelle
  imports Complex_Main "HOL-Library.Sublist"
begin

section \<open>Strings\<close>

text \<open>
  Strings are lists of 8-bit characters. The helpers below are the JavaScript string
  operations the sources use (\<open>split\<close>, \<open>startsWith\<close>, \<open>endsWith\<close>, \<open>toLowerCase\<close>, character
  classes of regular expressions), on ASCII.
\<close>

text \<open>Splitting a string at every occurrence of a character; empty pieces are kept.\<close>

fun split_on :: "char \<Rightarrow> string \<Rightarrow> string list" where
  "split_on c [] = [[]]"
| "split_on c (x # xs) =
     (if x = c then [] # split_on c xs
      else (case split_on c xs of [] \<Rightarrow> [[x]] | p # ps \<Rightarrow> (x # p) # ps))"

definition char_between :: "char \<Rightarrow> char \<Rightarrow> char \<Rightarrow> bool" where
  "char_between lo hi ch = ((of_char lo :: nat) \<le> of_char ch \<and> (of_char ch :: nat) \<le> of_char hi)"

definition is_digit :: "char \<Rightarrow> bool" where
  "is_digit ch = char_between CHR ''0'' CHR ''9'' ch"

definition is_hex_digit :: "char \<Rightarrow> bool" where
  "is_hex_digit ch =
     (is_digit ch \<or> char_between CHR ''a'' CHR ''f'' ch \<or> char_between CHR ''A'' CHR ''F'' ch)"

definition is_alpha :: "char \<Rightarrow> bool" where
  "is_alpha ch = (char_between CHR ''a'' CHR ''z'' ch \<or> char_between CHR ''A'' CHR ''Z'' ch)"

definition is_alnum :: "char \<Rightarrow> bool" where
  "is_alnum ch = (is_alpha ch \<or> is_digit ch)"

definition to_lower :: "char \<Rightarrow> char" where
  "to_lower ch = (if char_between CHR ''A'' CHR ''Z'' ch then char_of (of_char ch + (32::nat)) else ch)"

definition toLowerCase :: "string \<Rightarrow> string" where
  "toLowerCase s = map to_lower s"

definition startsWith :: "string \<Rightarrow> string \<Rightarrow> bool" where
  "startsWith s pre = (take (length pre) s = pre)"

definition endsWith :: "string \<Rightarrow> string \<Rightarrow> bool" where
  "endsWith s suf = (length suf \<le> length s \<and> drop (length s - length suf) s = suf)"

text \<open>The value of a digit in a radix up to 16, and of a digit string read in that radix.\<close>

definition digit_val :: "char \<Rightarrow> nat" where
  "digit_val ch =
     (if is_digit ch then of_char ch - 48
      else if char_between CHR ''a'' CHR ''f'' ch then of_char ch - 87
      else of_char ch - 55)"

definition read_radix :: "nat \<Rightarrow> string \<Rightarrow> nat" where
  "read_radix r s = foldl (\<lambda>acc ch. acc * r + digit_val ch) 0 s"

text \<open>Decimal and lower-case hexadecimal numerals without leading zeros.\<close>

definition digit_char :: "nat \<Rightarrow> char" where
  "digit_char k = (''0123456789abcdef'') ! k"

function show_radix :: "nat \<Rightarrow> nat \<Rightarrow> string" where
  "show_radix r n =
     (if r < 2 \<or> n < r then [digit_char n] else show_radix r (n div r) @ [digit_char (n mod r)])"
  by pat_completeness auto
termination
  by (relation "measure (\<lambda>(r, n). n)") auto

section \<open>URL records (UrlEntity)\<close>

text \<open>
  Instants are JavaScript \<open>Date\<close> time values: integer milliseconds since the epoch.
  A nullable column is an \<open>option\<close>.
\<close>

type_synonym instant = int

record url_entity =
  code :: string
  original :: string
  normalized :: string
  hitCount :: int
  customAlias :: "string option"
  expiresAt :: "instant option"
  createdAt :: instant
  updatedAt :: instant

text \<open>
  \<^verbatim>\<open>isExpired(): boolean { return this.expiresAt ? new Date() > this.expiresAt : false; }\<close>
  A \<open>Date\<close> object is always truthy, so the test is on presence only; \<open>now\<close> is the
  value of \<open>new Date()\<close> at the call.
\<close>

definition isExpired :: "instant \<Rightarrow> url_entity \<Rightarrow> bool" where
  "isExpired now r = (case expiresAt r of None \<Rightarrow> False | Some e \<Rightarrow> now > e)"

section \<open>URL statistics (UrlService.getUrlStats)\<close>

record url_stats =
  total :: int
  active :: int
  expired :: int

text \<open>
  \<^verbatim>\<open>
  const [total, expired] = await Promise.all([
    this.urlRepository.count(),
    this.urlRepository.count({ where: { expiresAt: Not(IsNull()) && Not(undefined) } }),
  ]);
  return { total, active: total - expired, expired };
  \<close>
  The condition on \<open>expiresAt\<close> is a JavaScript expression over find operators. Both
  \<open>Not(IsNull())\<close> and \<open>Not(undefined)\<close> are objects, hence truthy, so \<open>a && b\<close> evaluates to
  its right operand (\<open>js_and\<close>): the repository receives \<open>Not(undefined)\<close>. An operator
  applied to a plain value compares the column with a bound parameter, and \<open>undefined\<close> is
  bound as \<open>NULL\<close>: the store evaluates \<open>expiresAt != NULL\<close>, which in SQL is unknown for
  every row (\<open>sql_eval\<close> returns \<open>None\<close> for unknown), and a row is selected only when the
  condition is true. No instant is passed to the store.
\<close>

datatype find_operator = IsNull | Not_operator find_operator | Not_value "instant option"

definition js_and :: "find_operator \<Rightarrow> find_operator \<Rightarrow> find_operator" where
  "js_and a b = b"

fun sql_eval :: "find_operator \<Rightarrow> instant option \<Rightarrow> bool option" where
  "sql_eval IsNull col = Some (col = None)"
| "sql_eval (Not_operator f) col = map_option Not (sql_eval f col)"
| "sql_eval (Not_value None) col = None"
| "sql_eval (Not_value (Some v)) None = None"
| "sql_eval (Not_value (Some v)) (Some e) = Some (e \<noteq> v)"

definition selected :: "find_operator \<Rightarrow> url_entity \<Rightarrow> bool" where
  "selected f r = (sql_eval f (expiresAt r) = Some True)"

definition count_where :: "(url_entity \<Rightarrow> bool) \<Rightarrow> url_entity list \<Rightarrow> int" where
  "count_where p store = int (length (filter p store))"

definition getUrlStats :: "url_entity list \<Rightarrow> url_stats" where
  "getUrlStats store =
     (let total = count_where (\<lambda>r. True) store;
          expired = count_where (selected (js_and (Not_operator IsNull) (Not_value None))) store
      in \<lparr>total = total, active = total - expired, expired = expired\<rparr>)"

text \<open>
  The status filter of the listing (\<open>UrlService.getUrls\<close>), the sibling path:
  \<^verbatim>\<open>'(url.expiresAt IS NULL OR url.expiresAt > :now)'\<close> for \<open>active\<close> and
  \<^verbatim>\<open>'url.expiresAt IS NOT NULL AND url.expiresAt <= :now'\<close> for \<open>expired\<close>.
\<close>

definition status_active :: "instant \<Rightarrow> url_entity \<Rightarrow> bool" where
  "status_active now r = (case expiresAt r of None \<Rightarrow> True | Some e \<Rightarrow> e > now)"

definition status_expired :: "instant \<Rightarrow> url_entity \<Rightarrow> bool" where
  "status_expired now r = (case expiresAt r of None \<Rightarrow> False | Some e \<Rightarrow> e \<le> now)"

definition example_entity :: "string \<Rightarrow> string \<Rightarrow> instant option \<Rightarrow> url_entity" where
  "example_entity c u e =
     \<lparr>code = c, original = u, normalized = u, hitCount = 0, customAlias = None,
      expiresAt = e, createdAt = 0, updatedAt = 0\<rparr>"

section \<open>Hit events (HitEventDto)\<close>

text \<open>
  A hit event as the consumer decodes it from a message (\<open>KafkaService.parseHitEvent\<close>):
  a field may be absent from the JSON (\<open>None\<close>, the value \<open>undefined\<close>), and
  \<^verbatim>\<open>timestamp: new Date(data.timestamp)\<close> is always a \<open>Date\<close> object, whose time value is
  an instant or \<open>NaN\<close> (an invalid date, \<open>None\<close> here). The fields carry the prefix
  \<open>ev_\<close> to keep them apart from those of \<open>url_entity\<close>.
\<close>

record hit_event =
  ev_code :: "string option"
  ev_timestamp :: "instant option"
  ev_ip :: "string option"
  ev_userAgent :: "string option"
  ev_referrer :: "string option"
  ev_country :: "string option"
  ev_city :: "string option"
  ev_deviceType :: "string option"
  ev_browser :: "string option"
  ev_os :: "string option"

text \<open>JavaScript truthiness of an optional string: absent and empty are both falsy.\<close>

definition truthy :: "string option \<Rightarrow> bool" where
  "truthy x = (case x of None \<Rightarrow> False | Some s \<Rightarrow> s \<noteq> [])"

text \<open>\<^verbatim>\<open>x || 'unknown'\<close>\<close>

definition or_unknown :: "string option \<Rightarrow> string" where
  "or_unknown x = (case x of None \<Rightarrow> ''unknown'' | Some s \<Rightarrow> if s = [] then ''unknown'' else s)"

section \<open>Analytics store (CassandraService)\<close>

text \<open>
  Each table is an association list from its primary key to its non-key columns; a CQL
  \<open>UPDATE\<close> is an upsert. Dates are day numbers and the process runs in UTC, so
  \<open>new Date(y, m, d)\<close> of an instant is its day, \<open>getHours\<close> its hour of the day and
  \<open>getMinutes\<close> its minute of the hour.
\<close>

record analytics_store =
  hits_by_hour :: "((string \<times> int \<times> int) \<times> (int \<times> int)) list"
  hits_by_minute :: "((string \<times> int \<times> int \<times> int) \<times> (int \<times> int)) list"
  access_times :: "(string \<times> (instant \<times> instant)) list"
  unique_visitors :: "(string \<times> int \<times> string) list"
  referrers :: "((string \<times> string) \<times> int) list"
  geographic :: "((string \<times> string) \<times> int) list"
  devices :: "((string \<times> string \<times> string \<times> string) \<times> int) list"

definition empty_store :: analytics_store where
  "empty_store = \<lparr>hits_by_hour = [], hits_by_minute = [], access_times = [],
     unique_visitors = [], referrers = [], geographic = [], devices = []\<rparr>"

definition date_of :: "instant \<Rightarrow> int" where
  "date_of t = t div 86400000"

definition getHours :: "instant \<Rightarrow> int" where
  "getHours t = (t mod 86400000) div 3600000"

definition getMinutes :: "instant \<Rightarrow> int" where
  "getMinutes t = (t mod 3600000) div 60000"

fun upsert :: "'k \<Rightarrow> ('v option \<Rightarrow> 'v) \<Rightarrow> ('k \<times> 'v) list \<Rightarrow> ('k \<times> 'v) list" where
  "upsert k f [] = [(k, f None)]"
| "upsert k f ((k', v) # t) = (if k' = k then (k, f (Some v)) # t else (k', v) # upsert k f t)"

text \<open>\<^verbatim>\<open>SET count = count + 1, unique_visitors = unique_visitors + 1\<close>: a counter starts at 0.\<close>

definition bump_both :: "(int \<times> int) option \<Rightarrow> int \<times> int" where
  "bump_both v = (case v of None \<Rightarrow> (1, 1) | Some (c, u) \<Rightarrow> (c + 1, u + 1))"

text \<open>\<^verbatim>\<open>SET count = count + 1\<close>\<close>

definition bump :: "int option \<Rightarrow> int" where
  "bump v = (case v of None \<Rightarrow> 1 | Some c \<Rightarrow> c + 1)"

text \<open>\<^verbatim>\<open>INSERT INTO unique_visitors (code, date, visitor_hash) VALUES (?, ?, ?) IF NOT EXISTS\<close>\<close>

definition insert_if_not_exists :: "'a \<Rightarrow> 'a list \<Rightarrow> 'a list" where
  "insert_if_not_exists x xs = (if x \<in> set xs then xs else xs @ [x])"

text \<open>
  A template literal renders an absent value (\<open>undefined\<close>) as the text \<open>undefined\<close>.
\<close>

definition template :: "string option \<Rightarrow> string" where
  "template x = (case x of None \<Rightarrow> ''undefined'' | Some s \<Rightarrow> s)"

text \<open>
  \<^verbatim>\<open>createVisitorHash(ip, userAgent)\<close>: the first 16 hexadecimal characters of the SHA-256
  of \<^verbatim>\<open>`${ip}:${userAgent}`\<close>. The digest function \<open>sha\<close> (hexadecimal output) is a
  parameter.
\<close>

definition createVisitorHash :: "(string \<Rightarrow> string) \<Rightarrow> string option \<Rightarrow> string option \<Rightarrow> string" where
  "createVisitorHash sha ip ua = take 16 (sha (template ip @ '':'' @ template ua))"

datatype store_error = DriverError | TypeError

text \<open>
  \<open>CassandraService.recordHitEvent\<close>: one batch of the statements below, in the source's
  order. The bind values are \<open>code\<close> (the partition key of every statement), the date, hour
  and minute read from \<open>timestamp\<close>, \<open>timestamp\<close> itself, the visitor hash, and the optional
  referrer, country and device fields. An absent \<open>code\<close> or an invalid date leaves a key
  column without a value: the driver cannot encode the batch, which throws with nothing
  written (\<open>Inl\<close>). \<open>ip\<close> and \<open>userAgent\<close> are not bound; they only enter the visitor hash,
  which is computed whether they are present or not.
\<close>

definition recordHitEvent ::
  "(string \<Rightarrow> string) \<Rightarrow> hit_event \<Rightarrow> analytics_store \<Rightarrow> store_error + analytics_store" where
  "recordHitEvent sha ev s =
     (case (ev_code ev, ev_timestamp ev) of
        (Some c, Some t) \<Rightarrow>
          (let date = date_of t;
               hour = getHours t;
               minute = getMinutes t;
               visitorHash = createVisitorHash sha (ev_ip ev) (ev_userAgent ev);
               s1 = s\<lparr>hits_by_hour := upsert (c, date, hour) bump_both (hits_by_hour s)\<rparr>;
               s2 = s1\<lparr>hits_by_minute := upsert (c, date, hour, minute) bump_both (hits_by_minute s1)\<rparr>;
               s3 = s2\<lparr>access_times := upsert c (\<lambda>_. (t, t)) (access_times s2)\<rparr>;
               s4 = s3\<lparr>unique_visitors := insert_if_not_exists (c, date, visitorHash) (unique_visitors s3)\<rparr>;
               s5 = (case ev_referrer ev of
                       Some r \<Rightarrow>
                         if r \<noteq> [] \<and> r \<noteq> ''direct''
                         then s4\<lparr>referrers := upsert (c, r) bump (referrers s4)\<rparr> else s4
                     | None \<Rightarrow> s4);
               s6 = (case ev_country ev of
                       Some k \<Rightarrow>
                         if k \<noteq> []
                         then s5\<lparr>geographic := upsert (c, k) bump (geographic s5)\<rparr> else s5
                     | None \<Rightarrow> s5);
               s7 = (if truthy (ev_deviceType ev) \<or> truthy (ev_browser ev) \<or> truthy (ev_os ev)
                     then s6\<lparr>devices := upsert (c, or_unknown (ev_deviceType ev),
                                 or_unknown (ev_browser ev), or_unknown (ev_os ev)) bump (devices s6)\<rparr>
                     else s6)
           in Inr s7)
      | _ \<Rightarrow> Inl DriverError)"

text \<open>
  A run of events against the store, each in its own batch; a batch that throws writes
  nothing.
\<close>

fun record_all :: "(string \<Rightarrow> string) \<Rightarrow> hit_event list \<Rightarrow> analytics_store \<Rightarrow> analytics_store" where
  "record_all sha [] s = s"
| "record_all sha (ev # evs) s =
     (case recordHitEvent sha ev s of Inl e \<Rightarrow> record_all sha evs s | Inr s' \<Rightarrow> record_all sha evs s')"

text \<open>\<open>getAccessTimes\<close>: the row of the code, if any.\<close>

definition getAccessTimes :: "string \<Rightarrow> analytics_store \<Rightarrow> (instant \<times> instant) option" where
  "getAccessTimes c s = map_of (access_times s) c"

text \<open>
  \<open>getTotalStats\<close>:
  \<^verbatim>\<open>SELECT SUM(count) as total_hits, SUM(unique_visitors) as unique_visitors FROM hits_by_hour WHERE code = ?\<close>
  with \<^verbatim>\<open>AND date >= ? AND date <= ?\<close> when both bounds are given. It reads no other
  table.
\<close>

record total_stats =
  totalHits :: int
  uniqueVisitors :: int

definition in_range :: "instant option \<Rightarrow> instant option \<Rightarrow> int \<Rightarrow> bool" where
  "in_range startDate endDate d =
     (case (startDate, endDate) of
        (Some a, Some b) \<Rightarrow> date_of a \<le> d \<and> d \<le> date_of b
      | _ \<Rightarrow> True)"

definition hour_selected ::
  "string \<Rightarrow> instant option \<Rightarrow> instant option \<Rightarrow> string \<times> int \<times> int \<Rightarrow> bool" where
  "hour_selected c startDate endDate k = (case k of (c', d, h) \<Rightarrow> c' = c \<and> in_range startDate endDate d)"

definition selected_hours ::
  "string \<Rightarrow> instant option \<Rightarrow> instant option \<Rightarrow> analytics_store \<Rightarrow> (int \<times> int) list" where
  "selected_hours c startDate endDate s =
     map snd (filter (\<lambda>row. hour_selected c startDate endDate (fst row)) (hits_by_hour s))"

definition getTotalStats ::
  "string \<Rightarrow> instant option \<Rightarrow> instant option \<Rightarrow> analytics_store \<Rightarrow> total_stats" where
  "getTotalStats c startDate endDate s =
     (let rows = selected_hours c startDate endDate s
      in \<lparr>totalHits = sum_list (map fst rows), uniqueVisitors = sum_list (map snd rows)\<rparr>)"

text \<open>
  \<open>getTopReferrers\<close>: the rows of the code, sorted by hits descending (the sort is stable),
  cut to \<open>limit\<close>, then the percentages. \<open>totalHits\<close> is reduced from the list after the cut.
  Percentages are exact rationals here; the source computes them in floating point.
\<close>

record referrer_point =
  referrer :: string
  hits :: int
  percentage :: rat

definition referrer_rows :: "string \<Rightarrow> analytics_store \<Rightarrow> (string \<times> int) list" where
  "referrer_rows c s = map (\<lambda>((c', r), n). (r, n)) (filter (\<lambda>((c', r), n). c' = c) (referrers s))"

definition getTopReferrers :: "string \<Rightarrow> nat \<Rightarrow> analytics_store \<Rightarrow> referrer_point list" where
  "getTopReferrers c limit s =
     (let top = take limit (sort_key (\<lambda>(r, n). - n) (referrer_rows c s));
          totalHits = sum_list (map snd top)
      in map (\<lambda>(r, n). \<lparr>referrer = r, hits = n,
                percentage = (if totalHits > 0 then (of_int n / of_int totalHits) * 100 else 0)\<rparr>) top)"

text \<open>
  \<open>getTimeSeries\<close>: the rows of the code in \<open>hits_by_minute\<close> for the minute granularity and
  in \<open>hits_by_hour\<close> otherwise, inside the date range when both bounds are given. Each row is
  mapped to a point by
  \<^verbatim>\<open>new Date(row.date.getFullYear(), row.date.getMonth(), row.date.getDate(), row.hour)\<close>.
  The driver decodes a column of type \<open>date\<close> as its own \<open>LocalDate\<close>, which has no
  \<open>getFullYear\<close>: the callback throws a \<open>TypeError\<close> at the first row (\<open>time_series_point\<close>),
  and \<open>map\<close> over no rows returns the empty list. A point carries its time as an instant
  here (an ISO string in the source), by which the points are sorted.
\<close>

datatype granularity = Minute | Hour | Day

record time_series_data_point =
  ts_timestamp :: instant
  ts_hits :: int

definition time_series_rows ::
  "string \<Rightarrow> instant option \<Rightarrow> instant option \<Rightarrow> granularity \<Rightarrow> analytics_store
     \<Rightarrow> (int \<times> int \<times> int option \<times> int) list" where
  "time_series_rows c startDate endDate g s =
     (if g = Minute
      then map (\<lambda>((c', d, h, m), (n, u)). (d, h, Some m, n))
             (filter (\<lambda>((c', d, h, m), v). c' = c \<and> in_range startDate endDate d) (hits_by_minute s))
      else map (\<lambda>((c', d, h), (n, u)). (d, h, None, n))
             (filter (\<lambda>((c', d, h), v). c' = c \<and> in_range startDate endDate d) (hits_by_hour s)))"

definition time_series_point :: "int \<times> int \<times> int option \<times> int \<Rightarrow> store_error + time_series_data_point" where
  "time_series_point row = Inl TypeError"

fun map_rows :: "('a \<Rightarrow> store_error + 'b) \<Rightarrow> 'a list \<Rightarrow> store_error + 'b list" where
  "map_rows f [] = Inr []"
| "map_rows f (x # xs) =
     (case f x of
        Inl e \<Rightarrow> Inl e
      | Inr y \<Rightarrow> (case map_rows f xs of Inl e \<Rightarrow> Inl e | Inr ys \<Rightarrow> Inr (y # ys)))"

definition getTimeSeries ::
  "string \<Rightarrow> instant option \<Rightarrow> instant option \<Rightarrow> granularity \<Rightarrow> analytics_store
     \<Rightarrow> store_error + time_series_data_point list" where
  "getTimeSeries c startDate endDate g s =
     (case map_rows time_series_point (time_series_rows c startDate endDate g s) of
        Inl e \<Rightarrow> Inl e
      | Inr points \<Rightarrow> Inr (sort_key ts_timestamp points))"

text \<open>
  \<open>getGeographicDistribution\<close>: the rows of the code with their percentages; \<open>totalHits\<close> is
  reduced from all rows.
\<close>

record geographic_point =
  geo_country :: string
  geo_hits :: int
  geo_percentage :: rat

definition getGeographicDistribution :: "string \<Rightarrow> analytics_store \<Rightarrow> geographic_point list" where
  "getGeographicDistribution c s =
     (let countries = map (\<lambda>((c', k), n). (k, n)) (filter (\<lambda>((c', k), n). c' = c) (geographic s));
          totalHits = sum_list (map snd countries)
      in map (\<lambda>(k, n). \<lparr>geo_country = k, geo_hits = n,
                geo_percentage = (if totalHits > 0 then (of_int n / of_int totalHits) * 100 else 0)\<rparr>) countries)"

text \<open>
  \<open>getDeviceDistribution\<close>: the counts of the code's rows are added up per device type and
  per browser in two maps, which keep the order of first insertion; then the percentages.
\<close>

record distribution_point =
  dist_name :: string
  dist_hits :: int
  dist_percentage :: rat

definition add_count :: "int \<Rightarrow> int option \<Rightarrow> int" where
  "add_count n v = (case v of None \<Rightarrow> 0 | Some x \<Rightarrow> x) + n"

definition distribution :: "(string \<times> int) list \<Rightarrow> distribution_point list" where
  "distribution m =
     (let total = sum_list (map snd m)
      in map (\<lambda>(k, n). \<lparr>dist_name = k, dist_hits = n,
                dist_percentage = (if total > 0 then (of_int n / of_int total) * 100 else 0)\<rparr>) m)"

definition getDeviceDistribution ::
  "string \<Rightarrow> analytics_store \<Rightarrow> distribution_point list \<times> distribution_point list" where
  "getDeviceDistribution c s =
     (let rows = filter (\<lambda>((c', dt, br, os), n). c' = c) (devices s);
          deviceMap = foldl (\<lambda>m ((c', dt, br, os), n). upsert dt (add_count n) m) [] rows;
          browserMap = foldl (\<lambda>m ((c', dt, br, os), n). upsert br (add_count n) m) [] rows
      in (distribution deviceMap, distribution browserMap))"

text \<open>
  \<open>getAnalytics\<close>: the dashboard of a code, from the six queries above run together
  (\<open>Promise.all\<close>); when one of them throws, \<open>getAnalytics\<close> logs and throws the same error.
  The analytics query always asks for the top 10 referrers.
\<close>

record analytics_response =
  an_code :: string
  res_totalHits :: int
  res_uniqueVisitors :: int
  firstAccessed :: "instant option"
  lastAccessed :: "instant option"
  timeSeries :: "time_series_data_point list"
  topReferrers :: "referrer_point list"
  res_geographic :: "geographic_point list"
  res_devices :: "distribution_point list"
  res_browsers :: "distribution_point list"

definition getAnalytics ::
  "string \<Rightarrow> instant option \<Rightarrow> instant option \<Rightarrow> granularity \<Rightarrow> analytics_store
     \<Rightarrow> store_error + analytics_response" where
  "getAnalytics c startDate endDate g s =
     (case getTimeSeries c startDate endDate g s of
        Inl e \<Rightarrow> Inl e
      | Inr series \<Rightarrow>
          (let refs = getTopReferrers c 10 s;
               geo = getGeographicDistribution c s;
               dev = getDeviceDistribution c s;
               accessTimes = getAccessTimes c s;
               totalStats = getTotalStats c startDate endDate s
           in Inr \<lparr>an_code = c,
                    res_totalHits = totalHits totalStats,
                    res_uniqueVisitors = uniqueVisitors totalStats,
                    firstAccessed = map_option fst accessTimes,
                    lastAccessed = map_option snd accessTimes,
                    timeSeries = series,
                    topReferrers = refs,
                    res_geographic = geo,
                    res_devices = fst dev,
                    res_browsers = snd dev\<rparr>))"


text \<open>Example data: a hit by one fixed visitor, and a code with eleven referrers.\<close>

definition example_hit :: "string \<Rightarrow> instant \<Rightarrow> hit_event" where
  "example_hit c t =
     \<lparr>ev_code = Some c, ev_timestamp = Some t, ev_ip = Some ''203.0.113.7'',
      ev_userAgent = Some ''Mozilla/5.0'', ev_referrer = Some ''direct'', ev_country = None,
      ev_city = None, ev_deviceType = Some ''desktop'', ev_browser = Some ''Firefox'',
      ev_os = Some ''Linux''\<rparr>"

definition referrer_store :: analytics_store where
  "referrer_store = empty_store\<lparr>referrers :=
     [((''c'', ''r00''), 90), ((''c'', ''r01''), 1), ((''c'', ''r02''), 1), ((''c'', ''r03''), 1),
      ((''c'', ''r04''), 1), ((''c'', ''r05''), 1), ((''c'', ''r06''), 1), ((''c'', ''r07''), 1),
      ((''c'', ''r08''), 1), ((''c'', ''r09''), 1), ((''c'', ''r10''), 1)]\<rparr>"

section \<open>Analytics consumer (AnalyticsConsumerService)\<close>

text \<open>
  \<^verbatim>\<open>/^(?:[0-9]{1,3}\.){3}[0-9]{1,3}$|^([0-9a-fA-F]{1,4}:){7}[0-9a-fA-F]{1,4}$/\<close>:
  four groups of one to three digits separated by dots, or eight groups of one to four
  hexadecimal digits separated by colons. The groups cannot hold the separator, so a string
  matches exactly when its split has that shape.
\<close>

definition ipRegex_test :: "string \<Rightarrow> bool" where
  "ipRegex_test ip =
     ((length (split_on CHR ''.'' ip) = 4 \<and>
       list_all (\<lambda>g. 1 \<le> length g \<and> length g \<le> 3 \<and> list_all is_digit g) (split_on CHR ''.'' ip))
      \<or>
      (length (split_on CHR '':'' ip) = 8 \<and>
       list_all (\<lambda>g. 1 \<le> length g \<and> length g \<le> 4 \<and> list_all is_hex_digit g) (split_on CHR '':'' ip)))"

text \<open>
  \<open>isValidHitEvent\<close>. The first test is JavaScript falsiness of the four required fields;
  the decoded timestamp is a \<open>Date\<close> object, truthy whether valid or not, so the test never
  fires on it. The window test compares \<open>getTime()\<close> with the clock; for an invalid date that
  is \<open>NaN\<close> and both comparisons are false.
\<close>

definition isValidHitEvent :: "instant \<Rightarrow> hit_event \<Rightarrow> bool" where
  "isValidHitEvent now ev =
     (if \<not> truthy (ev_code ev) \<or> \<not> truthy (ev_ip ev) \<or> \<not> truthy (ev_userAgent ev) then False
      else
        let maxAge = 24 * 60 * 60 * 1000;
            maxFuture = 5 * 60 * 1000
        in if (case ev_timestamp ev of None \<Rightarrow> False
               | Some eventTime \<Rightarrow> eventTime < now - maxAge \<or> eventTime > now + maxFuture)
           then False
           else if \<not> ipRegex_test (case ev_ip ev of None \<Rightarrow> [] | Some ip \<Rightarrow> ip) then False
           else True)"

text \<open>
  \<open>processHitEvent\<close>: an invalid event is logged and skipped; a valid one is written to the
  store; a write that throws is caught, logged and handed to \<open>handleFailedEvent\<close>, which only
  logs.
\<close>

datatype outcome = Skipped | Applied | Failed

definition processHitEvent ::
  "(string \<Rightarrow> string) \<Rightarrow> instant \<Rightarrow> hit_event \<Rightarrow> analytics_store \<Rightarrow> outcome \<times> analytics_store" where
  "processHitEvent sha now ev s =
     (if \<not> isValidHitEvent now ev then (Skipped, s)
      else (case recordHitEvent sha ev s of
              Inr s' \<Rightarrow> (Applied, s')
            | Inl e \<Rightarrow> (Failed, s)))"

text \<open>
  The acceptance condition in the words of the specification: the four required fields are
  present and the timestamp lies in the window from 24 hours before to 5 minutes after the
  clock.
\<close>

definition fields_present_in_window :: "instant \<Rightarrow> hit_event \<Rightarrow> bool" where
  "fields_present_in_window now ev =
     (truthy (ev_code ev) \<and> truthy (ev_ip ev) \<and> truthy (ev_userAgent ev) \<and>
      (case ev_timestamp ev of None \<Rightarrow> False
       | Some t \<Rightarrow> now - 86400000 \<le> t \<and> t \<le> now + 300000))"

text \<open>A hit whose address is an IPv4-mapped IPv6 address, as a dual-stack socket reports it.\<close>

definition mapped_hit :: hit_event where
  "mapped_hit = (example_hit ''c'' 1704110400000)\<lparr>ev_ip := Some ''::ffff:203.0.113.7''\<rparr>"

section \<open>The URL class\<close>

text \<open>
  \<open>new URL(input)\<close>, its getters and setters, \<open>searchParams.delete\<close> and \<open>toString\<close> are
  Node's implementation of the WHATWG URL Standard; they are not code of the repository.
  The model below follows the standard's parser, without a base URL, on this fragment:
  ASCII input whose scheme is a special scheme other than \<open>file\<close> (http, https, ftp, ws,
  wss), whose host, once percent-decoded, is ASCII with no label starting with \<open>xn--\<close>, and
  whose query parameters percent-decode to ASCII. On input with a valid scheme outside that
  list the result is \<open>Foreign\<close>: the parser either throws or returns a URL of that scheme.
  On any other input outside the fragment the result is \<open>Unmodelled\<close>.
\<close>

subsection \<open>Percent-encoding\<close>

definition hex_upper :: "nat \<Rightarrow> char" where
  "hex_upper k = (''0123456789ABCDEF'') ! k"

definition percent_encode_byte :: "char \<Rightarrow> string" where
  "percent_encode_byte ch =
     [CHR ''%'', hex_upper (of_char ch div 16), hex_upper (of_char ch mod 16)]"

definition percent_encode :: "(char \<Rightarrow> bool) \<Rightarrow> string \<Rightarrow> string" where
  "percent_encode in_set s = concat (map (\<lambda>ch. if in_set ch then percent_encode_byte ch else [ch]) s)"

fun percent_decode :: "string \<Rightarrow> string" where
  "percent_decode [] = []"
| "percent_decode [a] = [a]"
| "percent_decode [a, b] = [a, b]"
| "percent_decode (a # b # c # rest) =
     (if a = CHR ''%'' \<and> is_hex_digit b \<and> is_hex_digit c
      then char_of (digit_val b * 16 + digit_val c) # percent_decode rest
      else a # percent_decode (b # c # rest))"

text \<open>The percent-encode sets of the standard, on bytes.\<close>

definition c0_control_set :: "char \<Rightarrow> bool" where
  "c0_control_set ch = ((of_char ch :: nat) \<le> 31 \<or> (of_char ch :: nat) > 126)"

definition fragment_set :: "char \<Rightarrow> bool" where
  "fragment_set ch = (c0_control_set ch \<or> ch \<in> set [CHR '' '', CHR 0x22, CHR ''<'', CHR ''>'', CHR 0x60])"

definition query_set :: "char \<Rightarrow> bool" where
  "query_set ch = (c0_control_set ch \<or> ch \<in> set [CHR '' '', CHR 0x22, CHR ''#'', CHR ''<'', CHR ''>''])"

definition special_query_set :: "char \<Rightarrow> bool" where
  "special_query_set ch = (query_set ch \<or> ch = CHR 0x27)"

definition path_set :: "char \<Rightarrow> bool" where
  "path_set ch = (query_set ch \<or> ch \<in> set [CHR ''?'', CHR ''^'', CHR 0x60, CHR ''{'', CHR ''}''])"

definition userinfo_set :: "char \<Rightarrow> bool" where
  "userinfo_set ch =
     (path_set ch \<or> ch \<in> set [CHR ''/'', CHR '':'', CHR '';'', CHR ''='', CHR ''@'', CHR ''['',
                               CHR 0x5C, CHR '']'', CHR ''|''])"

text \<open>
  The application/x-www-form-urlencoded byte serializer leaves ASCII alphanumerics and
  \<open>* - . _\<close> as they are, writes a space as \<open>+\<close> and percent-encodes every other byte.
\<close>

definition urlencoded_safe :: "char \<Rightarrow> bool" where
  "urlencoded_safe ch = (is_alnum ch \<or> ch \<in> set [CHR ''*'', CHR ''-'', CHR ''.'', CHR ''_''])"

definition urlencoded_serialize_bytes :: "string \<Rightarrow> string" where
  "urlencoded_serialize_bytes s =
     concat (map (\<lambda>ch. if ch = CHR '' '' then ''+''
                        else if urlencoded_safe ch then [ch]
                        else percent_encode_byte ch) s)"

subsection \<open>Hosts\<close>

datatype host = Domain string | IPv4 nat | IPv6 "nat list"

datatype 'a parse = Ok 'a | Fails | Outside

definition is_ascii :: "string \<Rightarrow> bool" where
  "is_ascii s = list_all (\<lambda>ch. (of_char ch :: nat) < 128) s"

text \<open>
  The IPv4 number parser: hexadecimal after \<open>0x\<close>, octal after a leading \<open>0\<close>, else decimal;
  the empty rest after a prefix is 0.
\<close>

definition radix_digit :: "nat \<Rightarrow> char \<Rightarrow> bool" where
  "radix_digit r ch =
     (if r = 16 then is_hex_digit ch
      else if r = 8 then char_between CHR ''0'' CHR ''7'' ch
      else is_digit ch)"

definition ipv4_number :: "string \<Rightarrow> nat option" where
  "ipv4_number s =
     (if s = [] then None
      else
        let r = (if length s \<ge> 2 \<and> (take 2 s = ''0x'' \<or> take 2 s = ''0X'') then 16
                 else if length s \<ge> 2 \<and> take 1 s = ''0'' then 8 else 10);
            d = (if r = 16 then drop 2 s else if r = 8 then drop 1 s else s)
        in if list_all (radix_digit r) d then Some (read_radix r d) else None)"

definition ends_in_number :: "string \<Rightarrow> bool" where
  "ends_in_number s =
     (let parts0 = split_on CHR ''.'' s
      in if last parts0 = [] \<and> length parts0 = 1 then False
         else
           let parts = (if last parts0 = [] then butlast parts0 else parts0);
               l = last parts
           in (l \<noteq> [] \<and> list_all is_digit l) \<or> ipv4_number l \<noteq> None)"

definition ipv4_parse :: "string \<Rightarrow> nat option" where
  "ipv4_parse s =
     (let parts0 = split_on CHR ''.'' s;
          parts = (if last parts0 = [] \<and> length parts0 > 1 then butlast parts0 else parts0)
      in if length parts > 4 then None
         else
           let numbers = map ipv4_number parts
           in if list_ex (\<lambda>n. n = None) numbers then None
              else
                let ns = map (\<lambda>n. case n of None \<Rightarrow> 0 | Some v \<Rightarrow> v) numbers
                in if list_ex (\<lambda>n. n > 255) (butlast ns) then None
                   else if last ns \<ge> 256 ^ (5 - length ns) then None
                   else Some (last ns + sum_list (map (\<lambda>(i, n). n * 256 ^ (3 - i))
                                 (zip [0 ..< length ns - 1] (butlast ns)))))"

definition ipv4_serialize :: "nat \<Rightarrow> string" where
  "ipv4_serialize a =
     show_radix 10 (a div 16777216) @ ''.'' @ show_radix 10 (a div 65536 mod 256) @ ''.'' @
     show_radix 10 (a div 256 mod 256) @ ''.'' @ show_radix 10 (a mod 256)"

text \<open>
  The IPv6 parser. \<open>acc\<close> holds the pieces read so far (its length is the standard's piece
  index) and \<open>compress\<close> the index recorded at \<open>::\<close>. The embedded IPv4 tail is four decimal
  numbers up to 255, without leading zeros, separated by dots.
\<close>

definition ipv4_in_ipv6 :: "string \<Rightarrow> nat list option" where
  "ipv4_in_ipv6 s =
     (let parts = split_on CHR ''.'' s
      in if length parts = 4 \<and>
            list_all (\<lambda>p. p \<noteq> [] \<and> list_all is_digit p \<and> (length p = 1 \<or> hd p \<noteq> CHR ''0'')
                           \<and> read_radix 10 p \<le> 255) parts
         then Some [read_radix 10 (parts ! 0) * 256 + read_radix 10 (parts ! 1),
                    read_radix 10 (parts ! 2) * 256 + read_radix 10 (parts ! 3)]
         else None)"

definition ipv6_finish :: "nat list \<Rightarrow> nat option \<Rightarrow> nat list option" where
  "ipv6_finish acc compress =
     (case compress of
        Some k \<Rightarrow> Some (take k acc @ replicate (8 - length acc) 0 @ drop k acc)
      | None \<Rightarrow> if length acc = 8 then Some acc else None)"

function ipv6_loop :: "string \<Rightarrow> nat list \<Rightarrow> nat option \<Rightarrow> nat list option" where
  "ipv6_loop s acc compress =
     (if s = [] then ipv6_finish acc compress
      else if length acc = 8 then None
      else if hd s = CHR '':'' then
        (if compress \<noteq> None then None
         else ipv6_loop (tl s) (acc @ [0]) (Some (length acc + 1)))
      else
        let hexs = takeWhile is_hex_digit (take 4 s);
            rest = drop (length hexs) s
        in if rest \<noteq> [] \<and> hd rest = CHR ''.'' then
             (if hexs = [] \<or> length acc > 6 then None
              else (case ipv4_in_ipv6 s of
                      None \<Rightarrow> None
                    | Some two \<Rightarrow> ipv6_finish (acc @ two) compress))
           else if rest \<noteq> [] \<and> hd rest = CHR '':'' then
             (if tl rest = [] then None
              else ipv6_loop (tl rest) (acc @ [read_radix 16 hexs]) compress)
           else if rest \<noteq> [] then None
           else ipv6_finish (acc @ [read_radix 16 hexs]) compress)"
  by pat_completeness auto
termination
  by (relation "measure (\<lambda>(s, acc, compress). length s)") (auto simp: neq_Nil_conv)

definition ipv6_parse :: "string \<Rightarrow> nat list option" where
  "ipv6_parse s =
     (if s \<noteq> [] \<and> hd s = CHR '':'' then
        (if take 2 s = ''::'' then ipv6_loop (drop 2 s) [0] (Some 1) else None)
      else ipv6_loop s [] None)"

text \<open>
  The IPv6 serializer: the first longest run of two or more zero pieces is written as
  \<open>::\<close>, the other pieces in lower-case hexadecimal.
\<close>

fun zero_run :: "nat list \<Rightarrow> nat" where
  "zero_run [] = 0"
| "zero_run (x # xs) = (if x = 0 then Suc (zero_run xs) else 0)"

definition find_compress :: "nat list \<Rightarrow> nat option" where
  "find_compress a =
     (let runs = map (\<lambda>i. zero_run (drop i a)) [0 ..< length a];
          best = fold max runs 0
      in if best < 2 then None else Some (length (takeWhile (\<lambda>r. r \<noteq> best) runs)))"

fun ipv6_pieces :: "nat list \<Rightarrow> nat \<Rightarrow> nat option \<Rightarrow> bool \<Rightarrow> string" where
  "ipv6_pieces [] i compress ignore0 = []"
| "ipv6_pieces (x # xs) i compress ignore0 =
     (if ignore0 \<and> x = 0 then ipv6_pieces xs (Suc i) compress True
      else if compress = Some i then (if i = 0 then ''::'' else '':'') @ ipv6_pieces xs (Suc i) compress True
      else show_radix 16 x @ (if xs = [] then [] else '':'') @ ipv6_pieces xs (Suc i) compress False)"

definition ipv6_serialize :: "nat list \<Rightarrow> string" where
  "ipv6_serialize a = ipv6_pieces a 0 (find_compress a) False"

definition serialize_host :: "host \<Rightarrow> string" where
  "serialize_host h =
     (case h of Domain d \<Rightarrow> d | IPv4 a \<Rightarrow> ipv4_serialize a | IPv6 a \<Rightarrow> ''['' @ ipv6_serialize a @ '']'')"

text \<open>
  The host parser for a special scheme. Forbidden domain code points: the forbidden host
  code points, the C0 controls, \<open>%\<close> and DEL.
\<close>

definition forbidden_domain_code_point :: "char \<Rightarrow> bool" where
  "forbidden_domain_code_point ch =
     ((of_char ch :: nat) \<le> 32 \<or> (of_char ch :: nat) = 127 \<or>
      ch \<in> set [CHR ''#'', CHR ''/'', CHR '':'', CHR ''<'', CHR ''>'', CHR ''?'', CHR ''@'', CHR ''['',
                CHR 0x5C, CHR '']'', CHR ''^'', CHR ''|'', CHR ''%''])"

definition has_xn_label :: "string \<Rightarrow> bool" where
  "has_xn_label d = list_ex (\<lambda>l. startsWith (toLowerCase l) ''xn--'') (split_on CHR ''.'' d)"

definition host_parse :: "string \<Rightarrow> host parse" where
  "host_parse input =
     (if input \<noteq> [] \<and> hd input = CHR ''['' then
        (if last input \<noteq> CHR '']'' then Fails
         else (case ipv6_parse (butlast (tl input)) of None \<Rightarrow> Fails | Some a \<Rightarrow> Ok (IPv6 a)))
      else
        let domain = percent_decode input
        in if \<not> is_ascii domain \<or> has_xn_label domain then Outside
           else
             let asciiDomain = toLowerCase domain
             in if asciiDomain = [] then Fails
                else if list_ex forbidden_domain_code_point asciiDomain then Fails
                else if ends_in_number asciiDomain then
                  (case ipv4_parse asciiDomain of None \<Rightarrow> Fails | Some a \<Rightarrow> Ok (IPv4 a))
                else Ok (Domain asciiDomain))"

subsection \<open>URL records and the parser\<close>

record url =
  scheme :: string
  username :: string
  password :: string
  url_host :: host
  url_port :: "nat option"
  path :: "string list"
  query :: "string option"
  fragment :: "string option"

datatype parsed = Parsed url | Failure | Foreign string | Unmodelled

definition c0_or_space :: "char \<Rightarrow> bool" where
  "c0_or_space ch = ((of_char ch :: nat) \<le> 32)"

definition tab_or_newline :: "char \<Rightarrow> bool" where
  "tab_or_newline ch = (ch \<in> set [CHR 0x09, CHR 0x0A, CHR 0x0D])"

definition preprocess :: "string \<Rightarrow> string" where
  "preprocess input =
     filter (\<lambda>ch. \<not> tab_or_newline ch)
       (rev (dropWhile c0_or_space (rev (dropWhile c0_or_space input))))"

definition scheme_char :: "char \<Rightarrow> bool" where
  "scheme_char ch = (is_alnum ch \<or> ch \<in> set [CHR ''+'', CHR ''-'', CHR ''.''])"

text \<open>The scheme and what follows its colon, or \<open>None\<close> when the input has no scheme.\<close>

definition split_scheme :: "string \<Rightarrow> (string \<times> string) option" where
  "split_scheme s =
     (if s = [] \<or> \<not> is_alpha (hd s) then None
      else
        let buffer = takeWhile scheme_char s;
            rest = dropWhile scheme_char s
        in if rest \<noteq> [] \<and> hd rest = CHR '':'' then Some (toLowerCase buffer, tl rest) else None)"

definition default_port :: "string \<Rightarrow> nat option" where
  "default_port sch =
     (if sch = ''http'' \<or> sch = ''ws'' then Some 80
      else if sch = ''https'' \<or> sch = ''wss'' then Some 443
      else if sch = ''ftp'' then Some 21
      else None)"

definition is_slash :: "char \<Rightarrow> bool" where
  "is_slash ch = (ch = CHR ''/'' \<or> ch = CHR 0x5C)"

definition authority_end :: "char \<Rightarrow> bool" where
  "authority_end ch = (is_slash ch \<or> ch = CHR ''?'' \<or> ch = CHR ''#'')"

text \<open>Splitting at the last \<open>@\<close>: the credentials before it, if there is one, and the rest.\<close>

definition split_credentials :: "string \<Rightarrow> string option \<times> string" where
  "split_credentials a =
     (if CHR ''@'' \<in> set a
      then (Some (rev (tl (dropWhile (\<lambda>ch. ch \<noteq> CHR ''@'') (rev a)))),
            rev (takeWhile (\<lambda>ch. ch \<noteq> CHR ''@'') (rev a)))
      else (None, a))"

text \<open>
  The host text runs to the first colon outside square brackets; \<open>Some\<close> port text follows
  such a colon.
\<close>

fun split_host_port :: "bool \<Rightarrow> string \<Rightarrow> string \<times> string option" where
  "split_host_port inside [] = ([], None)"
| "split_host_port inside (ch # cs) =
     (if ch = CHR '':'' \<and> \<not> inside then ([], Some cs)
      else
        let inside' = (if ch = CHR ''['' then True else if ch = CHR '']'' then False else inside);
            (h, p) = split_host_port inside' cs
        in (ch # h, p))"

definition parse_port :: "string \<Rightarrow> string \<Rightarrow> nat option parse" where
  "parse_port sch buffer =
     (if \<not> list_all is_digit buffer then Fails
      else if buffer = [] then Ok None
      else
        let port = read_radix 10 buffer
        in if port > 65535 then Fails
           else Ok (if default_port sch = Some port then None else Some port))"

text \<open>Dot segments, after percent-encoding of the segment.\<close>

definition single_dot :: "string \<Rightarrow> bool" where
  "single_dot seg = (toLowerCase seg \<in> set [''.'', ''%2e''])"

definition double_dot :: "string \<Rightarrow> bool" where
  "double_dot seg = (toLowerCase seg \<in> set [''..'', ''.%2e'', ''%2e.'', ''%2e%2e''])"

text \<open>Splitting at every slash or backslash; empty pieces are kept.\<close>

fun split_slashes :: "string \<Rightarrow> string list" where
  "split_slashes [] = [[]]"
| "split_slashes (x # xs) =
     (if is_slash x then [] # split_slashes xs
      else (case split_slashes xs of [] \<Rightarrow> [[x]] | p # ps \<Rightarrow> (x # p) # ps))"

text \<open>
  The path state, one buffer at a time: \<open>acc\<close> is the path so far; the last buffer is the
  one ended by the end of the path rather than by a slash.
\<close>

fun path_segments :: "string list \<Rightarrow> string list \<Rightarrow> string list" where
  "path_segments acc [] = acc"
| "path_segments acc (piece # pieces) =
     (let seg = percent_encode path_set piece;
          is_last = (pieces = [])
      in if double_dot seg
         then path_segments (if is_last then butlast acc @ [[]] else butlast acc) pieces
         else if single_dot seg
         then path_segments (if is_last then acc @ [[]] else acc) pieces
         else path_segments (acc @ [seg]) pieces)"

text \<open>
  The path of a special URL from the text between the authority and the query: the path
  start state consumes one leading slash, if there is one.
\<close>

definition parse_path :: "string \<Rightarrow> string list" where
  "parse_path s =
     path_segments [] (split_slashes (if s \<noteq> [] \<and> is_slash (hd s) then tl s else s))"

definition parse_special :: "string \<Rightarrow> string \<Rightarrow> parsed" where
  "parse_special sch rest =
     (let r1 = dropWhile is_slash rest;
          authority = takeWhile (\<lambda>ch. \<not> authority_end ch) r1;
          after = dropWhile (\<lambda>ch. \<not> authority_end ch) r1;
          (credentials, hostport) = split_credentials authority;
          (hostname, port_text) = split_host_port False hostport
      in if hostname = [] then Failure
         else case host_parse hostname of
           Fails \<Rightarrow> Failure
         | Outside \<Rightarrow> Unmodelled
         | Ok h \<Rightarrow>
             (case parse_port sch (case port_text of None \<Rightarrow> [] | Some t \<Rightarrow> t) of
                Fails \<Rightarrow> Failure
              | Outside \<Rightarrow> Unmodelled
              | Ok prt \<Rightarrow>
                  let cred = (case credentials of None \<Rightarrow> [] | Some c \<Rightarrow> c);
                      user = takeWhile (\<lambda>ch. ch \<noteq> CHR '':'') cred;
                      pass = drop (length user + 1) cred;
                      path_text = takeWhile (\<lambda>ch. ch \<noteq> CHR ''?'' \<and> ch \<noteq> CHR ''#'') after;
                      after_path = dropWhile (\<lambda>ch. ch \<noteq> CHR ''?'' \<and> ch \<noteq> CHR ''#'') after;
                      query_text = (if after_path \<noteq> [] \<and> hd after_path = CHR ''?''
                                    then Some (takeWhile (\<lambda>ch. ch \<noteq> CHR ''#'') (tl after_path))
                                    else None);
                      after_query = dropWhile (\<lambda>ch. ch \<noteq> CHR ''#'') after_path
                  in Parsed
                       \<lparr>scheme = sch,
                        username = percent_encode userinfo_set user,
                        password = percent_encode userinfo_set pass,
                        url_host = h,
                        url_port = prt,
                        path = parse_path path_text,
                        query = map_option (percent_encode special_query_set) query_text,
                        fragment = (if after_query = [] then None
                                    else Some (percent_encode fragment_set (tl after_query)))\<rparr>))"

definition new_URL :: "string \<Rightarrow> parsed" where
  "new_URL input =
     (if \<not> is_ascii input then Unmodelled
      else case split_scheme (preprocess input) of
        None \<Rightarrow> Failure
      | Some (sch, rest) \<Rightarrow>
          if sch \<in> set [''http'', ''https'', ''ftp'', ''ws'', ''wss''] then parse_special sch rest
          else Foreign sch)"

subsection \<open>Getters, setters and the serializer\<close>

definition protocol :: "url \<Rightarrow> string" where
  "protocol u = scheme u @ '':''"

definition hostname :: "url \<Rightarrow> string" where
  "hostname u = serialize_host (url_host u)"

definition port :: "url \<Rightarrow> string" where
  "port u = (case url_port u of None \<Rightarrow> [] | Some p \<Rightarrow> show_radix 10 p)"

definition pathname :: "url \<Rightarrow> string" where
  "pathname u = concat (map (\<lambda>seg. CHR ''/'' # seg) (path u))"

definition toString :: "url \<Rightarrow> string" where
  "toString u =
     scheme u @ ''://'' @
     (if username u \<noteq> [] \<or> password u \<noteq> []
      then username u @ (if password u \<noteq> [] then '':'' @ password u else []) @ ''@'' else []) @
     hostname u @
     (case url_port u of None \<Rightarrow> [] | Some p \<Rightarrow> '':'' @ show_radix 10 p) @
     pathname u @
     (case query u of None \<Rightarrow> [] | Some q \<Rightarrow> ''?'' @ q) @
     (case fragment u of None \<Rightarrow> [] | Some f \<Rightarrow> ''#'' @ f)"

text \<open>
  The port setter with the empty string removes the port; with digits it runs the port
  state. The source only ever assigns the empty string.
\<close>

definition set_port :: "string \<Rightarrow> url \<Rightarrow> url" where
  "set_port v u =
     (if v = [] then u\<lparr>url_port := None\<rparr>
      else case parse_port (scheme u) (takeWhile is_digit v) of
             Ok p \<Rightarrow> if takeWhile is_digit v = [] then u else u\<lparr>url_port := p\<rparr>
           | _ \<Rightarrow> u)"

text \<open>
  The pathname setter empties the path and runs the path states on the value; there \<open>?\<close>
  and \<open>#\<close> do not end the path, they are percent-encoded.
\<close>

definition set_pathname :: "string \<Rightarrow> url \<Rightarrow> url" where
  "set_pathname v u = u\<lparr>path := parse_path v\<rparr>"

text \<open>
  The hostname setter runs the hostname state on the value: the buffer ends at the first
  slash, \<open>?\<close> or \<open>#\<close>; a colon outside brackets, an empty buffer or a host that does not parse
  leave the URL as it is. \<open>None\<close> when the host is outside the model.
\<close>

definition set_hostname :: "string \<Rightarrow> url \<Rightarrow> url option" where
  "set_hostname v u =
     (let (buffer, port_text) = split_host_port False (takeWhile (\<lambda>ch. \<not> authority_end ch) v)
      in if port_text \<noteq> None \<or> buffer = [] then Some u
         else case host_parse buffer of
                Ok h \<Rightarrow> Some (u\<lparr>url_host := h\<rparr>)
              | Fails \<Rightarrow> Some u
              | Outside \<Rightarrow> None)"

subsection \<open>Search parameters\<close>

text \<open>
  The application/x-www-form-urlencoded parser: the pieces between \<open>&\<close>, the empty ones
  skipped; each piece is a name and, after its first \<open>=\<close>, a value; \<open>+\<close> is a space; both are
  percent-decoded.
\<close>

definition plus_to_space :: "string \<Rightarrow> string" where
  "plus_to_space s = map (\<lambda>ch. if ch = CHR ''+'' then CHR '' '' else ch) s"

definition urlencoded_parse :: "string \<Rightarrow> (string \<times> string) list" where
  "urlencoded_parse s =
     map (\<lambda>piece.
            (percent_decode (plus_to_space (takeWhile (\<lambda>ch. ch \<noteq> CHR ''='') piece)),
             percent_decode (plus_to_space (drop 1 (dropWhile (\<lambda>ch. ch \<noteq> CHR ''='') piece)))))
       (filter (\<lambda>piece. piece \<noteq> []) (split_on CHR ''&'' s))"

fun join_with :: "string \<Rightarrow> string list \<Rightarrow> string" where
  "join_with sep [] = []"
| "join_with sep [x] = x"
| "join_with sep (x # y # ys) = x @ sep @ join_with sep (y # ys)"

definition urlencoded_serialize :: "(string \<times> string) list \<Rightarrow> string" where
  "urlencoded_serialize l =
     join_with ''&'' (map (\<lambda>(n, v). urlencoded_serialize_bytes n @ ''='' @ urlencoded_serialize_bytes v) l)"

text \<open>
  The list of \<open>url.searchParams\<close>, \<open>None\<close> when a name or value is not ASCII, and the update
  of the URL's query after a change of the list.
\<close>

definition searchParams :: "url \<Rightarrow> (string \<times> string) list option" where
  "searchParams u =
     (let l = urlencoded_parse (case query u of None \<Rightarrow> [] | Some q \<Rightarrow> q)
      in if list_all (\<lambda>(n, v). is_ascii n \<and> is_ascii v) l then Some l else None)"

definition update_query :: "(string \<times> string) list \<Rightarrow> url \<Rightarrow> url" where
  "update_query l u = u\<lparr>query := (if urlencoded_serialize l = [] then None else Some (urlencoded_serialize l))\<rparr>"

text \<open>\<open>searchParams.delete(name)\<close> on the list.\<close>

definition delete_param :: "string \<Rightarrow> (string \<times> string) list \<Rightarrow> (string \<times> string) list" where
  "delete_param name l = filter (\<lambda>(n, v). n \<noteq> name) l"

section \<open>URL service (UrlService)\<close>

text \<open>
  \<open>normalizeUrl\<close>. A URL that does not parse is returned as it is (the \<open>catch\<close>); \<open>None\<close>
  when the input is outside the modelled fragment of the URL class. The twelve
  \<open>searchParams.delete\<close> calls each rewrite the query from the list that is left; the last
  rewrite is the one that stays.
\<close>

definition trackingParams :: "string list" where
  "trackingParams =
     [''utm_source'', ''utm_medium'', ''utm_campaign'', ''utm_term'', ''utm_content'',
      ''gclid'', ''fbclid'', ''msclkid'', ''dclid'', ''source'', ''medium'', ''campaign'']"

definition normalize_parsed :: "url \<Rightarrow> url option" where
  "normalize_parsed parsedUrl =
     (case searchParams parsedUrl of
        None \<Rightarrow> None
      | Some params \<Rightarrow>
          let u1 = update_query (foldl (\<lambda>l param. delete_param param l) params trackingParams) parsedUrl;
              u2 = (if protocol u1 = ''http:'' \<and> port u1 = ''80'' then set_port [] u1 else u1);
              u3 = (if protocol u2 = ''https:'' \<and> port u2 = ''443'' then set_port [] u2 else u2);
              u4 = (if endsWith (pathname u3) ''/'' \<and> length (pathname u3) > 1
                    then set_pathname (butlast (pathname u3)) u3 else u3)
          in set_hostname (toLowerCase (hostname u4)) u4)"

definition normalizeUrl :: "string \<Rightarrow> string option" where
  "normalizeUrl url =
     (case new_URL url of
        Failure \<Rightarrow> Some url
      | Foreign sch \<Rightarrow> None
      | Unmodelled \<Rightarrow> None
      | Parsed parsedUrl \<Rightarrow> map_option toString (normalize_parsed parsedUrl))"

text \<open>The primary store and the redirect cache.\<close>

record cached_url =
  c_original :: string
  c_expiresAt :: "instant option"
  c_hitCount :: int

record app_state =
  db :: "url_entity list"
  cache :: "(string \<times> cached_url) list"
  bus :: "hit_event list"

record config =
  baseUrl :: string
  defaultCodeLength :: nat
  customAliasMinLength :: nat
  customAliasMaxLength :: nat
  enableUrlScanning :: bool

record create_dto =
  dto_url :: string
  dto_customAlias :: "string option"
  dto_expiresAt :: "instant option"
  dto_clientIp :: "string option"
  dto_userAgent :: "string option"

record create_response =
  res_code :: string
  res_shortUrl :: string
  res_original :: string
  res_createdAt :: instant
  res_expiresAt :: "instant option"
  isNew :: bool

datatype service_error = BadRequestException string | QueryFailedError string

text \<open>The reputation probe (\<open>VirusTotalService.checkUrl\<close>) answers, or throws.\<close>

datatype scan_result = Safe | Malicious | ScanFailed

definition getShortUrl :: "string \<Rightarrow> url_entity \<Rightarrow> string" where
  "getShortUrl base r = base @ ''/'' @ code r"

definition findByNormalizedUrl :: "string \<Rightarrow> url_entity list \<Rightarrow> url_entity option" where
  "findByNormalizedUrl n store = find (\<lambda>r. normalized r = n) store"

definition findOneByCode :: "string \<Rightarrow> url_entity list \<Rightarrow> url_entity option" where
  "findOneByCode c store = find (\<lambda>r. code r = c) store"

text \<open>
  \<open>generateUniqueCode\<close>: up to ten random codes of the default length, each probed in the
  store; then one code two characters longer, not probed. \<open>nanoid n i\<close> is the code the
  generator returns for length \<open>n\<close> at its \<open>i\<close>-th call.
\<close>

fun generate_from :: "(nat \<Rightarrow> nat \<Rightarrow> string) \<Rightarrow> nat \<Rightarrow> url_entity list \<Rightarrow> nat list \<Rightarrow> string" where
  "generate_from nanoid n store [] = nanoid (n + 2) 10"
| "generate_from nanoid n store (attempt # attempts) =
     (if findOneByCode (nanoid n attempt) store = None then nanoid n attempt
      else generate_from nanoid n store attempts)"

definition generateUniqueCode :: "(nat \<Rightarrow> nat \<Rightarrow> string) \<Rightarrow> nat \<Rightarrow> url_entity list \<Rightarrow> string" where
  "generateUniqueCode nanoid n store = generate_from nanoid n store [0 ..< 10]"

definition validateCustomAlias :: "config \<Rightarrow> string \<Rightarrow> url_entity list \<Rightarrow> service_error + string" where
  "validateCustomAlias cfg alias store =
     (if length alias < customAliasMinLength cfg \<or> length alias > customAliasMaxLength cfg
      then Inl (BadRequestException ''Custom alias length'')
      else if findOneByCode alias store \<noteq> None
      then Inl (BadRequestException ''Custom alias already exists'')
      else Inr alias)"

text \<open>
  \<open>urlRepository.save\<close>: the table has unique indexes on \<open>code\<close> and on \<open>normalized\<close>, and
  \<open>code\<close> is a \<open>varchar(16)\<close>.
\<close>

definition save :: "url_entity \<Rightarrow> url_entity list \<Rightarrow> service_error + url_entity list" where
  "save e store =
     (if findOneByCode (code e) store \<noteq> None \<or> findByNormalizedUrl (normalized e) store \<noteq> None
      then Inl (QueryFailedError ''duplicate key'')
      else if length (code e) > 16 then Inl (QueryFailedError ''value too long'')
      else Inr (store @ [e]))"

definition cacheUrl :: "url_entity \<Rightarrow> (string \<times> cached_url) list \<Rightarrow> (string \<times> cached_url) list" where
  "cacheUrl r c =
     upsert (code r) (\<lambda>_. \<lparr>c_original = original r, c_expiresAt = expiresAt r, c_hitCount = hitCount r\<rparr>) c"

definition createShortUrl ::
  "config \<Rightarrow> (string \<Rightarrow> scan_result) \<Rightarrow> (nat \<Rightarrow> nat \<Rightarrow> string) \<Rightarrow> instant \<Rightarrow> create_dto \<Rightarrow> app_state
     \<Rightarrow> ((service_error + create_response) \<times> app_state) option" where
  "createShortUrl cfg scan nanoid now dto st =
     (case normalizeUrl (dto_url dto) of
        None \<Rightarrow> None
      | Some normalizedUrl \<Rightarrow>
          Some
           (if enableUrlScanning cfg \<and> scan normalizedUrl = Malicious
            then (Inl (BadRequestException ''URL appears to be malicious and cannot be shortened''), st)
            else
              case (case findByNormalizedUrl normalizedUrl (db st) of
                      None \<Rightarrow> None
                    | Some existingUrl \<Rightarrow> if isExpired now existingUrl then None else Some existingUrl) of
                Some existingUrl \<Rightarrow>
                  (Inr \<lparr>res_code = code existingUrl,
                        res_shortUrl = getShortUrl (baseUrl cfg) existingUrl,
                        res_original = original existingUrl,
                        res_createdAt = createdAt existingUrl,
                        res_expiresAt = expiresAt existingUrl,
                        isNew = False\<rparr>, st)
              | None \<Rightarrow>
                  (case (if truthy (dto_customAlias dto)
                         then validateCustomAlias cfg (case dto_customAlias dto of None \<Rightarrow> [] | Some a \<Rightarrow> a) (db st)
                         else Inr (generateUniqueCode nanoid (defaultCodeLength cfg) (db st))) of
                     Inl e \<Rightarrow> (Inl e, st)
                   | Inr c \<Rightarrow>
                       let urlEntity = \<lparr>code = c, original = dto_url dto, normalized = normalizedUrl,
                                         hitCount = 0, customAlias = dto_customAlias dto,
                                         expiresAt = dto_expiresAt dto, createdAt = now, updatedAt = now\<rparr>
                       in (case save urlEntity (db st) of
                             Inl e \<Rightarrow> (Inl e, st)
                           | Inr store' \<Rightarrow>
                               (Inr \<lparr>res_code = code urlEntity,
                                     res_shortUrl = getShortUrl (baseUrl cfg) urlEntity,
                                     res_original = original urlEntity,
                                     res_createdAt = createdAt urlEntity,
                                     res_expiresAt = expiresAt urlEntity,
                                     isNew = True\<rparr>,
                                st\<lparr>db := store', cache := cacheUrl urlEntity (cache st)\<rparr>)))))"

text \<open>
  \<open>findByCode\<close>: the cache first, then the store, whose hit is cached. The cache holds the
  target, the expiry and the hit count; the other fields of the entity built from a cache
  hit are undefined in the source and never read on the redirect path.
\<close>

definition entity_of_cache :: "string \<Rightarrow> cached_url \<Rightarrow> url_entity" where
  "entity_of_cache c v =
     \<lparr>code = c, original = c_original v, normalized = [], hitCount = c_hitCount v,
      customAlias = None, expiresAt = c_expiresAt v, createdAt = 0, updatedAt = 0\<rparr>"

definition findByCode :: "string \<Rightarrow> app_state \<Rightarrow> url_entity option \<times> app_state" where
  "findByCode c st =
     (case map_of (cache st) c of
        Some v \<Rightarrow> (Some (entity_of_cache c v), st)
      | None \<Rightarrow>
          (case findOneByCode c (db st) of
             Some r \<Rightarrow> (Some r, st\<lparr>cache := cacheUrl r (cache st)\<rparr>)
           | None \<Rightarrow> (None, st)))"

text \<open>
  \<open>incrementHitCount\<close>: the counter update, then a refresh of the cache through
  \<open>findByCode\<close>; an error of the store is caught and logged.
\<close>

definition incrementHitCount :: "bool \<Rightarrow> string \<Rightarrow> app_state \<Rightarrow> app_state" where
  "incrementHitCount store_fails c st =
     (if store_fails then st
      else
        let st1 = st\<lparr>db := map (\<lambda>r. if code r = c then r\<lparr>hitCount := hitCount r + 1\<rparr> else r) (db st)\<rparr>
        in case findByCode c st1 of
             (Some r, st2) \<Rightarrow> st2\<lparr>cache := cacheUrl r (cache st2)\<rparr>
           | (None, st2) \<Rightarrow> st2)"

section \<open>Redirect dispatcher (RedirectController)\<close>

text \<open>
  \<open>isPrivateIp\<close>: \<^verbatim>\<open>/^(\d{1,3})\.(\d{1,3})\.(\d{1,3})\.(\d{1,3})$/\<close>, the groups read as
  decimal numbers.
\<close>

definition isPrivateIp :: "string \<Rightarrow> bool" where
  "isPrivateIp h =
     (let groups = split_on CHR ''.'' h
      in if \<not> (length groups = 4 \<and>
                 list_all (\<lambda>g. 1 \<le> length g \<and> length g \<le> 3 \<and> list_all is_digit g) groups)
         then False
         else
           let a = read_radix 10 (groups ! 0); b = read_radix 10 (groups ! 1)
           in a = 10 \<or> (a = 172 \<and> b \<ge> 16 \<and> b \<le> 31) \<or> (a = 192 \<and> b = 168) \<or>
              (a = 169 \<and> b = 254) \<or> a = 127)"

definition suspiciousTlds :: "string list" where
  "suspiciousTlds = [''.tk'', ''.ml'', ''.ga'', ''.cf'']"

text \<open>
  \<open>isValidRedirectUrl\<close>. A URL that does not parse is invalid (the \<open>catch\<close>), and so is a
  URL of a scheme outside the special ones, whether the parser accepts it or not. \<open>None\<close>
  when the input is outside the modelled fragment of the URL class.
\<close>

definition isValidRedirectUrl :: "string \<Rightarrow> bool option" where
  "isValidRedirectUrl u =
     (case new_URL u of
        Failure \<Rightarrow> Some False
      | Foreign sch \<Rightarrow> Some False
      | Unmodelled \<Rightarrow> None
      | Parsed parsedUrl \<Rightarrow>
          Some
           (if protocol parsedUrl \<notin> set [''http:'', ''https:''] then False
            else
              let h = toLowerCase (hostname parsedUrl)
              in if h = ''localhost'' \<or> h = ''127.0.0.1'' \<or> h = ''::1'' then False
                 else if isPrivateIp h then False
                 else if list_ex (\<lambda>tld. endsWith h tld) suspiciousTlds then False
                 else True))"

datatype redirect_type = permanent | temporary

definition permanentDomains :: "string list" where
  "permanentDomains =
     [''youtube.com'', ''youtu.be'', ''github.com'', ''gitlab.com'', ''twitter.com'', ''x.com'',
      ''facebook.com'', ''instagram.com'', ''linkedin.com'', ''medium.com'', ''stackoverflow.com'']"

definition getRedirectType :: "string \<Rightarrow> redirect_type option" where
  "getRedirectType u =
     (case new_URL u of
        Failure \<Rightarrow> Some temporary
      | Foreign sch \<Rightarrow> None
      | Unmodelled \<Rightarrow> None
      | Parsed parsedUrl \<Rightarrow>
          let h0 = toLowerCase (hostname parsedUrl);
              h = (if startsWith h0 ''www.'' then drop 4 h0 else h0)
          in Some (if h \<in> set permanentDomains then permanent else temporary))"

text \<open>
  The side effects of a redirect and the ways they fail. The hit-count update may fail in
  the store; the user-agent parser and the geo lookup return a value or throw; the event
  bus accepts the event or throws.
\<close>

record device_info =
  deviceType :: string
  browser :: string
  os :: string

datatype thrown = Thrown string

record effects =
  store_fails :: bool
  parse_ua :: "string \<Rightarrow> thrown + device_info"
  geo_lookup :: "string \<Rightarrow> thrown + (string option \<times> string option)"
  publish_fails :: bool

text \<open>
  \<open>KafkaService.publishHitEvent\<close>: the send inside its own \<open>try\<close>; an error is logged, not
  rethrown.
\<close>

definition publishHitEvent :: "bool \<Rightarrow> hit_event \<Rightarrow> hit_event list \<Rightarrow> hit_event list" where
  "publishHitEvent send_fails ev b = (if send_fails then b else b @ [ev])"

text \<open>
  \<open>RedirectController.recordHitEvent\<close>: enrichment and publish inside one \<open>try\<close>; whatever is
  thrown is logged and the method returns.
\<close>

definition redirect_recordHitEvent ::
  "effects \<Rightarrow> instant \<Rightarrow> string \<Rightarrow> string \<Rightarrow> string \<Rightarrow> string option \<Rightarrow> app_state \<Rightarrow> app_state" where
  "redirect_recordHitEvent fx now c ip userAgent ref st =
     (case parse_ua fx userAgent of
        Inl e \<Rightarrow> st
      | Inr deviceInfo \<Rightarrow>
          (case geo_lookup fx ip of
             Inl e \<Rightarrow> st
           | Inr geoInfo \<Rightarrow>
               let hitEvent =
                     \<lparr>ev_code = Some c, ev_timestamp = Some now, ev_ip = Some ip,
                      ev_userAgent = Some userAgent,
                      ev_referrer = Some (if truthy ref then or_unknown ref else ''direct''),
                      ev_country = fst geoInfo, ev_city = snd geoInfo,
                      ev_deviceType = Some (deviceType deviceInfo),
                      ev_browser = Some (browser deviceInfo), ev_os = Some (os deviceInfo)\<rparr>
               in st\<lparr>bus := publishHitEvent (publish_fails fx) hitEvent (bus st)\<rparr>))"

text \<open>
  The response of \<open>redirect\<close>: a redirect with its status, \<open>Location\<close> and headers, a JSON
  body with a status, or an HTTP exception, which the framework answers with its status.
\<close>

datatype http_exception = BadRequest string | NotFound string

datatype response =
  Redirect nat string "(string \<times> string) list"
| Json nat string
| Raised http_exception

definition status_of :: "response \<Rightarrow> nat" where
  "status_of r =
     (case r of Redirect s l h \<Rightarrow> s | Json s m \<Rightarrow> s
      | Raised (BadRequest m) \<Rightarrow> 400 | Raised (NotFound m) \<Rightarrow> 404)"

definition security_headers :: "(string \<times> string) list" where
  "security_headers =
     [(''Cache-Control'', ''no-cache, no-store, must-revalidate''), (''Pragma'', ''no-cache''),
      (''Expires'', ''0''), (''X-Robots-Tag'', ''noindex, nofollow'')]"

definition code_format_ok :: "string \<Rightarrow> bool" where
  "code_format_ok c = (c \<noteq> [] \<and> list_all (\<lambda>ch. is_alnum ch \<or> ch = CHR ''_'' \<or> ch = CHR ''-'') c)"

definition redirect ::
  "effects \<Rightarrow> instant \<Rightarrow> string \<Rightarrow> string \<Rightarrow> string \<Rightarrow> string option \<Rightarrow> app_state
     \<Rightarrow> (response \<times> app_state) option" where
  "redirect fx now c clientIp userAgent ref st =
     (if \<not> code_format_ok c then Some (Raised (BadRequest ''Invalid URL code format''), st)
      else case findByCode c st of
        (None, st1) \<Rightarrow> Some (Raised (NotFound ''Short URL not found''), st1)
      | (Some u, st1) \<Rightarrow>
          if isExpired now u then Some (Json 410 ''This short URL has expired'', st1)
          else case isValidRedirectUrl (original u) of
            None \<Rightarrow> None
          | Some False \<Rightarrow> Some (Raised (BadRequest ''Invalid redirect URL''), st1)
          | Some True \<Rightarrow>
              let st2 = incrementHitCount (store_fails fx) c st1;
                  st3 = redirect_recordHitEvent fx now c clientIp userAgent ref st2
              in (case getRedirectType (original u) of
                    None \<Rightarrow> None
                  | Some redirectType \<Rightarrow>
                      let statusCode = (if redirectType = permanent then 301 else 302)
                      in Some (Redirect statusCode (original u) security_headers, st3)))"

text \<open>Example data for the redirect path.\<close>

definition no_failures :: effects where
  "no_failures =
     \<lparr>store_fails = False,
      parse_ua = (\<lambda>ua. Inr \<lparr>deviceType = ''desktop'', browser = ''Firefox'', os = ''Linux''\<rparr>),
      geo_lookup = (\<lambda>ip. Inr (None, None)),
      publish_fails = False\<rparr>"

definition store_of :: "url_entity list \<Rightarrow> app_state" where
  "store_of rs = \<lparr>db = rs, cache = [], bus = []\<rparr>"

section \<open>Example requests\<close>

definition all_fail :: effects where
  "all_fail =
     \<lparr>store_fails = True,
      parse_ua = (\<lambda>ua. Inl (Thrown ''user agent'')),
      geo_lookup = (\<lambda>ip. Inl (Thrown ''geo'')),
      publish_fails = True\<rparr>"

definition example_config :: config where
  "example_config =
     \<lparr>baseUrl = ''https://sho.rt'', defaultCodeLength = 7, customAliasMinLength = 3,
      customAliasMaxLength = 50, enableUrlScanning = False\<rparr>"

definition example_dto :: "string \<Rightarrow> create_dto" where
  "example_dto u =
     \<lparr>dto_url = u, dto_customAlias = None, dto_expiresAt = None,
      dto_clientIp = Some ''203.0.113.7'', dto_userAgent = Some ''Mozilla/5.0''\<rparr>"

text \<open>A code generator that always answers with the same letter, repeated.\<close>

definition example_nanoid :: "nat \<Rightarrow> nat \<Rightarrow> string" where
  "example_nanoid n i = replicate n CHR ''k''"

definition path_record :: url_entity where
  "path_record =
     \<lparr>code = ''kkkkkkk'', original = ''https://Example.COM/path?utm_source=x&a=1'',
      normalized = ''https://example.com/path?a=1'', hitCount = 0, customAlias = None,
      expiresAt = None, createdAt = 1000, updatedAt = 1000\<rparr>"

definition path_state :: app_state where
  "path_state =
     \<lparr>db = [path_record],
      cache = [(''kkkkkkk'', \<lparr>c_original = ''https://Example.COM/path?utm_source=x&a=1'',
                               c_expiresAt = None, c_hitCount = 0\<rparr>)],
      bus = []\<rparr>"

section \<open>Well-formed URL records\<close>

text \<open>
  What the parser guarantees of the record it returns: every component is in the form the
  serializer writes and the parser reads back unchanged. The condition on the host is that
  of a domain name; address hosts are left unconstrained, the lemmas on hosts below are
  about domain names.
\<close>

definition clean :: "(char \<Rightarrow> bool) \<Rightarrow> string \<Rightarrow> bool" where
  "clean in_set s = list_all (\<lambda>ch. \<not> in_set ch) s"

definition wf_host :: "host \<Rightarrow> bool" where
  "wf_host h =
     (case h of
        Domain d \<Rightarrow> d \<noteq> [] \<and> is_ascii d \<and> \<not> list_ex forbidden_domain_code_point d \<and>
                    toLowerCase d = d \<and> \<not> has_xn_label d \<and> \<not> ends_in_number d
      | IPv4 a \<Rightarrow> True
      | IPv6 a \<Rightarrow> True)"

definition wf_segment :: "string \<Rightarrow> bool" where
  "wf_segment seg =
     (clean path_set seg \<and> \<not> list_ex is_slash seg \<and> \<not> single_dot seg \<and> \<not> double_dot seg)"

definition wf_url :: "url \<Rightarrow> bool" where
  "wf_url u =
     (scheme u \<in> set [''http'', ''https'', ''ftp'', ''ws'', ''wss''] \<and>
      clean userinfo_set (username u) \<and> clean userinfo_set (password u) \<and>
      wf_host (url_host u) \<and>
      (case url_port u of None \<Rightarrow> True | Some n \<Rightarrow> n \<le> 65535 \<and> default_port (scheme u) \<noteq> Some n) \<and>
      path u \<noteq> [] \<and> list_all wf_segment (path u) \<and>
      (case query u of None \<Rightarrow> True | Some q \<Rightarrow> clean special_query_set q) \<and>
      (case fragment u of None \<Rightarrow> True | Some f \<Rightarrow> clean fragment_set f))"

text \<open>A path that ends in two or more slashes after at least one other segment.\<close>

definition path_ends_in_two_slashes :: "url \<Rightarrow> bool" where
  "path_ends_in_two_slashes u =
     (length (path u) \<ge> 3 \<and> last (path u) = [] \<and> last (butlast (path u)) = [])"

text \<open>Text of visible ASCII characters: no controls, no space.\<close>

definition printable :: "string \<Rightarrow> bool" where
  "printable s = list_all (\<lambda>ch. 32 < (of_char ch :: nat) \<and> (of_char ch :: nat) < 127) s"

definition is_domain :: "host \<Rightarrow> bool" where
  "is_domain h = (case h of Domain d \<Rightarrow> True | _ \<Rightarrow> False)"

text \<open>
  The steps of \<open>normalizeUrl\<close> on a well-formed record, one component each: the search
  parameters that are kept, the port that is kept, the path without its last slash, and the
  record they give.
\<close>

definition kept_params :: "(string \<times> string) list \<Rightarrow> (string \<times> string) list" where
  "kept_params l = filter (\<lambda>(n, v). n \<notin> set trackingParams) l"

definition kept_port :: "string \<Rightarrow> nat option \<Rightarrow> nat option" where
  "kept_port sch prt =
     (if (sch = ''http'' \<and> prt = Some 80) \<or> (sch = ''https'' \<and> prt = Some 443) then None else prt)"

definition trim_slash :: "string list \<Rightarrow> string list" where
  "trim_slash segs = (if last segs = [] \<and> length segs \<ge> 2 then butlast segs else segs)"

definition normal_form :: "(string \<times> string) list \<Rightarrow> url \<Rightarrow> url" where
  "normal_form l u =
     u\<lparr>query := (if urlencoded_serialize (kept_params l) = [] then None
                 else Some (urlencoded_serialize (kept_params l))),
       url_port := kept_port (scheme u) (url_port u),
       path := trim_slash (path u)\<rparr>"

section \<open>Properties of the statistics\<close>

lemma getUrlStats_total: "total (getUrlStats store) = int (length store)"
  by (simp add: getUrlStats_def count_where_def Let_def)

lemma getUrlStats_active: "active (getUrlStats store) = total (getUrlStats store) - expired (getUrlStats store)"
  by (simp add: getUrlStats_def Let_def)

text \<open>
  The condition that reaches the store selects no row, so \<open>expired\<close> is 0 and \<open>active\<close> is
  the total for every store.
\<close>

lemma getUrlStats_expired: "expired (getUrlStats store) = 0"
  by (simp add: getUrlStats_def count_where_def selected_def js_and_def Let_def)

lemma getUrlStats_all_active: "active (getUrlStats store) = int (length store)"
  by (simp add: getUrlStats_def count_where_def selected_def js_and_def Let_def)

text \<open>
  Claim C1. The statistics should count as \<open>expired\<close> exactly the records whose
  \<open>expiresAt\<close> is set and not after the current instant, with \<open>active = total - expired\<close>.
  For a store holding one record that expired at instant 500, \<open>getUrlStats\<close> reports
  \<open>expired = 0\<close> and \<open>active = 1\<close>, while at instant 1000 the specified count of expired
  records (the listing's own \<open>expired\<close> filter) is 1 and that of active records is 0.
\<close>

theorem getUrlStats_past_expiry_counted_active:
  "getUrlStats [example_entity ''abc'' ''https://a.com/'' (Some 500)]
     = \<lparr>total = 1, active = 1, expired = 0\<rparr>
   \<and> count_where (status_expired 1000) [example_entity ''abc'' ''https://a.com/'' (Some 500)] = 1
   \<and> count_where (status_active 1000) [example_entity ''abc'' ''https://a.com/'' (Some 500)] = 0"
  by (simp add: getUrlStats_def count_where_def status_expired_def status_active_def
      selected_def js_and_def example_entity_def Let_def)

section \<open>Properties of the analytics store\<close>


lemma map_of_upsert_const: "map_of (upsert k (\<lambda>_. v) tbl) k = Some v"
  by (induction tbl) auto

text \<open>A batch is written exactly when the event has a code and a valid timestamp.\<close>

lemma recordHitEvent_written_iff:
  "(\<exists>s'. recordHitEvent sha ev s = Inr s') \<longleftrightarrow> ev_code ev \<noteq> None \<and> ev_timestamp ev \<noteq> None"
  by (auto simp: recordHitEvent_def Let_def split: option.splits)



text \<open>Every write of an event overwrites both access times of its code with its timestamp.\<close>

lemma recordHitEvent_access_times:
  "recordHitEvent sha ev s = Inr s' \<Longrightarrow> ev_code ev = Some c \<Longrightarrow> ev_timestamp ev = Some t \<Longrightarrow>
   getAccessTimes c s' = Some (t, t)"
  by (auto simp: recordHitEvent_def getAccessTimes_def Let_def map_of_upsert_const
      split: option.splits if_splits)









text \<open>
  \<open>getAnalytics\<close> returns exactly when the time series selects no row, and then carries the
  answers of the other queries.
\<close>

lemma getTimeSeries_rows:
  "getTimeSeries c sd ed g s = (if time_series_rows c sd ed g s = [] then Inr [] else Inl TypeError)"
  by (cases "time_series_rows c sd ed g s") (simp_all add: getTimeSeries_def time_series_point_def)

lemma getAnalytics_throws:
  "time_series_rows c sd ed g s \<noteq> [] \<Longrightarrow> getAnalytics c sd ed g s = Inl TypeError"
  by (simp add: getAnalytics_def getTimeSeries_rows)

lemma getAnalytics_returns:
  "time_series_rows c sd ed g s = [] \<Longrightarrow>
   \<exists>a. getAnalytics c sd ed g s = Inr a
     \<and> res_uniqueVisitors a = uniqueVisitors (getTotalStats c sd ed s)
     \<and> res_totalHits a = totalHits (getTotalStats c sd ed s)
     \<and> firstAccessed a = map_option fst (getAccessTimes c s)
     \<and> lastAccessed a = map_option snd (getAccessTimes c s)
     \<and> topReferrers a = getTopReferrers c 10 s"
  by (simp add: getAnalytics_def getTimeSeries_rows Let_def)



lemma time_series_rows_referrer_store: "time_series_rows c sd ed g referrer_store = []"
  by (simp add: time_series_rows_def referrer_store_def empty_store_def)

lemma recordHitEvent_example_hit:
  "recordHitEvent sha (example_hit c t) s =
     Inr (s\<lparr>hits_by_hour := upsert (c, date_of t, getHours t) bump_both (hits_by_hour s),
            hits_by_minute := upsert (c, date_of t, getHours t, getMinutes t) bump_both (hits_by_minute s),
            access_times := upsert c (\<lambda>_. (t, t)) (access_times s),
            unique_visitors := insert_if_not_exists
               (c, date_of t, createVisitorHash sha (Some ''203.0.113.7'') (Some ''Mozilla/5.0''))
               (unique_visitors s),
            devices := upsert (c, ''desktop'', ''Firefox'', ''Linux'') bump (devices s)\<rparr>)"
  by (simp add: recordHitEvent_def example_hit_def truthy_def or_unknown_def Let_def)



text \<open>
  The dashboard cannot be read once a hit is stored: after one hit of a code, the time
  series selects its row and \<open>getAnalytics\<close> throws.
\<close>

lemma getAnalytics_after_hit:
  "getAnalytics ''c'' None None Hour (record_all sha [example_hit ''c'' 1704110400000] empty_store)
     = Inl TypeError"
  by (rule getAnalytics_throws)
    (simp add: recordHitEvent_example_hit time_series_rows_def in_range_def empty_store_def)

text \<open>
  Claim C3. After a sequence of hit events for a code, the access-times row should hold the
  minimum timestamp seen as \<open>firstAt\<close> and the maximum as \<open>lastAt\<close>; for the events of
  2024-01-01 at 12:00:00Z, 12:00:30Z and 13:00:00Z, \<open>firstAt\<close> should be 12:00:00Z
  (1704110400000 ms). The store's update writes the event's timestamp into both columns, so
  after these three events the access-times row of the code holds 13:00:00Z
  (1704114000000 ms) as the first access and as the last.
\<close>

theorem access_times_first_overwritten:
  "getAccessTimes ''c''
     (record_all sha [example_hit ''c'' 1704110400000, example_hit ''c'' 1704110430000,
                      example_hit ''c'' 1704114000000] empty_store)
   = Some (1704114000000, 1704114000000)"
  by (simp add: recordHitEvent_example_hit getAccessTimes_def map_of_upsert_const)

text \<open>
  Claim C8. Each entry of the top referrers should carry the percentage of its count in the
  sum over all referrer rows of the code. The source cuts the sorted list to the top 10
  before it sums, so with eleven referrers (one with 90 hits, ten with 1 hit each, 100 hits
  in all) the first entry carries 90 / 99 of 100, that is 1000 / 11, instead of 90. The
  store of the example holds no hit rows, so the analytics query returns, at every
  granularity, with these top referrers.
\<close>

theorem topReferrers_percentage_of_top_only:
  "(\<exists>a. getAnalytics ''c'' None None g referrer_store = Inr a
       \<and> topReferrers a = getTopReferrers ''c'' 10 referrer_store)
   \<and> getTopReferrers ''c'' 10 referrer_store ! 0
       = \<lparr>referrer = ''r00'', hits = 90, percentage = 1000 / 11\<rparr>
   \<and> length (getTopReferrers ''c'' 10 referrer_store) = 10
   \<and> sum_list (map snd (referrer_rows ''c'' referrer_store)) = 100"
proof (intro conjI)
  show "\<exists>a. getAnalytics ''c'' None None g referrer_store = Inr a
       \<and> topReferrers a = getTopReferrers ''c'' 10 referrer_store"
    using getAnalytics_returns [OF time_series_rows_referrer_store, of "''c''" None None g] by blast
  show "getTopReferrers ''c'' 10 referrer_store ! 0
       = \<lparr>referrer = ''r00'', hits = 90, percentage = 1000 / 11\<rparr>"
    by (simp add: getTopReferrers_def referrer_rows_def referrer_store_def empty_store_def Let_def)
  show "length (getTopReferrers ''c'' 10 referrer_store) = 10"
    by (simp add: getTopReferrers_def referrer_rows_def referrer_store_def empty_store_def Let_def)
  show "sum_list (map snd (referrer_rows ''c'' referrer_store)) = 100"
    by (simp add: referrer_rows_def referrer_store_def empty_store_def)
qed


section \<open>Properties of the analytics consumer\<close>

text \<open>
  The address pattern covers dotted quads of any digits and the full eight-group form of
  IPv6 only: it accepts \<open>999.999.999.999\<close> and rejects the loopback \<open>::1\<close> and
  \<open>2001:db8::1\<close>.
\<close>

lemma ipRegex_test_examples:
  "ipRegex_test ''203.0.113.7'' \<and> ipRegex_test ''999.999.999.999''
   \<and> \<not> ipRegex_test ''::1'' \<and> \<not> ipRegex_test ''2001:db8::1''
   \<and> \<not> ipRegex_test ''::ffff:203.0.113.7''"
  by (simp add: ipRegex_test_def is_digit_def is_hex_digit_def char_between_def)

text \<open>
  The consumer applies a decoded event exactly when its code, ip and userAgent are present
  and not empty, its timestamp is a valid date in the window from 24 hours before to 5
  minutes after the clock, and its ip matches the address pattern.
\<close>

lemma processHitEvent_applied_iff:
  "fst (processHitEvent sha now ev s) = Applied \<longleftrightarrow>
     truthy (ev_code ev) \<and> truthy (ev_ip ev) \<and> truthy (ev_userAgent ev)
     \<and> (case ev_timestamp ev of None \<Rightarrow> False | Some t \<Rightarrow> now - 86400000 \<le> t \<and> t \<le> now + 300000)
     \<and> (case ev_ip ev of None \<Rightarrow> False | Some ip \<Rightarrow> ipRegex_test ip)"
  by (auto simp: processHitEvent_def isValidHitEvent_def recordHitEvent_def truthy_def Let_def
      split: option.splits sum.splits)

text \<open>
  Claim C9. The consumer should apply a decoded event if and only if its four required
  fields are present and its timestamp lies in the window, and skip an event for no other
  reason. The event \<open>mapped_hit\<close> has all four fields and a timestamp equal to the clock, and
  the consumer skips it: its address, the IPv4-mapped form that a dual-stack socket reports
  for an IPv4 client, is a valid address that the format check of \<open>isValidHitEvent\<close> does
  not match.
\<close>

theorem processHitEvent_skips_mapped_address:
  "fields_present_in_window 1704110400000 mapped_hit
   \<and> processHitEvent (\<lambda>x. x) 1704110400000 mapped_hit empty_store = (Skipped, empty_store)"
  by (simp add: fields_present_in_window_def processHitEvent_def isValidHitEvent_def mapped_hit_def
      example_hit_def truthy_def ipRegex_test_def is_digit_def is_hex_digit_def char_between_def Let_def)

section \<open>Properties of the URL service\<close>

lemma normalizeUrl_first:
  "normalizeUrl ''https://Example.COM/path?utm_source=x&a=1'' = Some ''https://example.com/path?a=1''"
  by code_simp

lemma normalizeUrl_second:
  "normalizeUrl ''https://example.com/path/?a=1&utm_medium=y'' = Some ''https://example.com/path?a=1''"
  by code_simp

lemma status_active_not_expired: "status_active now r \<Longrightarrow> \<not> isExpired now r"
  by (auto simp: status_active_def isExpired_def split: option.splits)

text \<open>
  The lookup by normalized URL returns the record of the store that carries it, when the
  store holds one record per normalized URL (the unique index on the column).
\<close>

lemma findByNormalizedUrl_unique:
  "r \<in> set store \<Longrightarrow> distinct (map normalized store) \<Longrightarrow>
   findByNormalizedUrl (normalized r) store = Some r"
proof (induction store)
  case Nil
  then show ?case by simp
next
  case (Cons x xs)
  show ?case
  proof (cases "x = r")
    case True
    then show ?thesis by (simp add: findByNormalizedUrl_def)
  next
    case False
    with Cons.prems have r: "r \<in> set xs" and d: "distinct (map normalized xs)"
      and n: "normalized x \<notin> normalized ` set xs"
      by auto
    from r n have "normalized x \<noteq> normalized r" by force
    with Cons.IH [OF r d] show ?thesis by (simp add: findByNormalizedUrl_def)
  qed
qed

lemma findByNormalizedUrl_None:
  "findByNormalizedUrl n store = None \<longleftrightarrow> n \<notin> normalized ` set store"
  by (auto simp: findByNormalizedUrl_def find_None_iff)

text \<open>\<open>save\<close> keeps the store at one record per normalized URL.\<close>

lemma save_distinct_normalized:
  "distinct (map normalized store) \<Longrightarrow> save e store = Inr store' \<Longrightarrow> distinct (map normalized store')"
  by (auto simp: save_def findByNormalizedUrl_None split: if_splits)

lemma createShortUrl_existing:
  assumes "normalizeUrl (dto_url dto) = Some n"
    and "r \<in> set (db st)"
    and "normalized r = n"
    and "distinct (map normalized (db st))"
    and "status_active now r"
    and "\<not> (enableUrlScanning cfg \<and> scan n = Malicious)"
  shows "createShortUrl cfg scan nanoid now dto st =
         Some (Inr \<lparr>res_code = code r, res_shortUrl = getShortUrl (baseUrl cfg) r,
                     res_original = original r, res_createdAt = createdAt r,
                     res_expiresAt = expiresAt r, isNew = False\<rparr>, st)"
proof -
  have "findByNormalizedUrl n (db st) = Some r"
    using findByNormalizedUrl_unique [OF assms(2) assms(4)] assms(3) by simp
  then show ?thesis
    using assms(1) assms(6) status_active_not_expired [OF assms(5)]
    by (auto simp: createShortUrl_def)
qed

lemma first_post:
  "createShortUrl example_config scan example_nanoid 1000
     (example_dto ''https://Example.COM/path?utm_source=x&a=1'') (store_of [])
   = Some (Inr \<lparr>res_code = ''kkkkkkk'', res_shortUrl = ''https://sho.rt/kkkkkkk'',
                 res_original = ''https://Example.COM/path?utm_source=x&a=1'', res_createdAt = 1000,
                 res_expiresAt = None, isNew = True\<rparr>, path_state)"
  by (simp add: createShortUrl_def normalizeUrl_first example_config_def example_dto_def store_of_def
      findByNormalizedUrl_def truthy_def generateUniqueCode_def example_nanoid_def findOneByCode_def
      save_def getShortUrl_def cacheUrl_def path_state_def path_record_def Let_def upt_rec numeral_eq_Suc)

lemma second_post:
  "createShortUrl example_config scan example_nanoid 2000
     (example_dto ''https://example.com/path/?a=1&utm_medium=y'') path_state
   = Some (Inr \<lparr>res_code = ''kkkkkkk'', res_shortUrl = ''https://sho.rt/kkkkkkk'',
                 res_original = ''https://Example.COM/path?utm_source=x&a=1'', res_createdAt = 1000,
                 res_expiresAt = None, isNew = False\<rparr>, path_state)"
proof -
  have "createShortUrl example_config scan example_nanoid 2000
     (example_dto ''https://example.com/path/?a=1&utm_medium=y'') path_state
     = Some (Inr \<lparr>res_code = code path_record, res_shortUrl = getShortUrl (baseUrl example_config) path_record,
                     res_original = original path_record, res_createdAt = createdAt path_record,
                     res_expiresAt = expiresAt path_record, isNew = False\<rparr>, path_state)"
    by (rule createShortUrl_existing [where n = "''https://example.com/path?a=1''"])
      (simp_all add: example_dto_def normalizeUrl_second path_state_def
        path_record_def status_active_def example_config_def)
  then show ?thesis
    by (simp add: path_record_def getShortUrl_def example_config_def)
qed

text \<open>
  Claim C4. Whenever the store, which holds one record per normalized URL, contains a
  resolvable record with the normalized URL of the request (its \<open>expiresAt\<close> is null or after
  the clock) and the reputation scan, if enabled, does not flag the URL, \<open>createShortUrl\<close>
  returns that record with \<open>isNew = false\<close> and changes nothing. In the scenario, the first
  request stores a record whose normalized URL is \<open>https://example.com/path?a=1\<close>, and the
  second request, whose URL differs in case, trailing slash and tracking parameters, returns
  the same code with \<open>isNew = false\<close>.
\<close>

theorem createShortUrl_deduplicates:
  "(normalizeUrl (dto_url dto) = Some n \<and> r \<in> set (db st) \<and> normalized r = n
      \<and> distinct (map normalized (db st)) \<and> status_active now r
      \<and> \<not> (enableUrlScanning cfg \<and> scan n = Malicious)
    \<longrightarrow> createShortUrl cfg scan nanoid now dto st =
         Some (Inr \<lparr>res_code = code r, res_shortUrl = getShortUrl (baseUrl cfg) r,
                     res_original = original r, res_createdAt = createdAt r,
                     res_expiresAt = expiresAt r, isNew = False\<rparr>, st))
   \<and> createShortUrl example_config scan example_nanoid 1000
        (example_dto ''https://Example.COM/path?utm_source=x&a=1'') (store_of [])
      = Some (Inr \<lparr>res_code = ''kkkkkkk'', res_shortUrl = ''https://sho.rt/kkkkkkk'',
                 res_original = ''https://Example.COM/path?utm_source=x&a=1'', res_createdAt = 1000,
                 res_expiresAt = None, isNew = True\<rparr>, path_state)
   \<and> createShortUrl example_config scan example_nanoid 2000
        (example_dto ''https://example.com/path/?a=1&utm_medium=y'') path_state
      = Some (Inr \<lparr>res_code = ''kkkkkkk'', res_shortUrl = ''https://sho.rt/kkkkkkk'',
                 res_original = ''https://Example.COM/path?utm_source=x&a=1'', res_createdAt = 1000,
                 res_expiresAt = None, isNew = False\<rparr>, path_state)
   \<and> map normalized (db path_state) = [''https://example.com/path?a=1'']"
proof (intro conjI impI)
  assume "normalizeUrl (dto_url dto) = Some n \<and> r \<in> set (db st) \<and> normalized r = n
      \<and> distinct (map normalized (db st)) \<and> status_active now r
      \<and> \<not> (enableUrlScanning cfg \<and> scan n = Malicious)"
  then show "createShortUrl cfg scan nanoid now dto st =
         Some (Inr \<lparr>res_code = code r, res_shortUrl = getShortUrl (baseUrl cfg) r,
                     res_original = original r, res_createdAt = createdAt r,
                     res_expiresAt = expiresAt r, isNew = False\<rparr>, st)"
    using createShortUrl_existing [of dto n r st now cfg scan nanoid] by blast
next
  show "createShortUrl example_config scan example_nanoid 1000
        (example_dto ''https://Example.COM/path?utm_source=x&a=1'') (store_of [])
      = Some (Inr \<lparr>res_code = ''kkkkkkk'', res_shortUrl = ''https://sho.rt/kkkkkkk'',
                 res_original = ''https://Example.COM/path?utm_source=x&a=1'', res_createdAt = 1000,
                 res_expiresAt = None, isNew = True\<rparr>, path_state)"
    by (rule first_post)
next
  show "createShortUrl example_config scan example_nanoid 2000
        (example_dto ''https://example.com/path/?a=1&utm_medium=y'') path_state
      = Some (Inr \<lparr>res_code = ''kkkkkkk'', res_shortUrl = ''https://sho.rt/kkkkkkk'',
                 res_original = ''https://Example.COM/path?utm_source=x&a=1'', res_createdAt = 1000,
                 res_expiresAt = None, isNew = False\<rparr>, path_state)"
    by (rule second_post)
next
  show "map normalized (db path_state) = [''https://example.com/path?a=1'']"
    by (simp add: path_state_def path_record_def)
qed

theorem createShortUrl_deduplicates_witness:
  "normalizeUrl (dto_url (example_dto ''https://example.com/path/?a=1&utm_medium=y''))
     = Some ''https://example.com/path?a=1''
   \<and> path_record \<in> set (db path_state)
   \<and> normalized path_record = ''https://example.com/path?a=1''
   \<and> distinct (map normalized (db path_state))
   \<and> status_active 2000 path_record
   \<and> createShortUrl example_config (\<lambda>u. Malicious) example_nanoid 2000
        (example_dto ''https://example.com/path/?a=1&utm_medium=y'') path_state
      = Some (Inr \<lparr>res_code = code path_record,
                 res_shortUrl = getShortUrl (baseUrl example_config) path_record,
                 res_original = original path_record, res_createdAt = createdAt path_record,
                 res_expiresAt = expiresAt path_record, isNew = False\<rparr>, path_state)"
  using createShortUrl_deduplicates [where dto = "example_dto ''https://example.com/path/?a=1&utm_medium=y''"
      and n = "''https://example.com/path?a=1''" and st = path_state and r = path_record
      and now = 2000 and cfg = example_config and scan = "\<lambda>u. Malicious" and nanoid = example_nanoid]
  by (simp add: example_dto_def normalizeUrl_second path_state_def
      path_record_def status_active_def example_config_def)

section \<open>Idempotence of the normalizer\<close>

subsection \<open>Percent-encoding\<close>

lemma percent_encode_clean: "clean S s \<Longrightarrow> percent_encode S s = s"
  by (induction s) (auto simp: clean_def percent_encode_def)

lemma hex_upper_cases: "k < 16 \<Longrightarrow> hex_upper k \<in> set ''0123456789ABCDEF''"
  unfolding hex_upper_def by (rule nth_mem) simp

lemma percent_encode_byte_chars:
  assumes "c \<in> set (percent_encode_byte ch)"
  shows "c = CHR ''%'' \<or> c \<in> set ''0123456789ABCDEF''"
proof -
  have a: "of_char ch div 16 < (16::nat)"
    by (simp add: less_mult_imp_div_less) 
  have b: "of_char ch mod 16 < (16::nat)" by simp
  from assms consider "c = CHR ''%''" | "c = hex_upper (of_char ch div 16)" | "c = hex_upper (of_char ch mod 16)"
    unfolding percent_encode_byte_def by auto
  then show ?thesis
    using hex_upper_cases [OF a] hex_upper_cases [OF b] by cases blast+
qed

lemma clean_percent_encode:
  assumes "\<not> S CHR ''%''" and "\<forall>c \<in> set ''0123456789ABCDEF''. \<not> S c"
  shows "clean S (percent_encode S s)"
proof -
  have byte: "\<not> S c" if "c \<in> set (percent_encode_byte ch)" for c ch
    using percent_encode_byte_chars [OF that] assms by blast
  have "\<forall>c \<in> set (percent_encode S s). \<not> S c"
  proof (induction s)
    case Nil
    show ?case by (simp add: percent_encode_def)
  next
    case (Cons a s)
    have "percent_encode S (a # s) = (if S a then percent_encode_byte a else [a]) @ percent_encode S s"
      by (simp add: percent_encode_def)
    then show ?case using Cons byte by auto
  qed
  then show ?thesis by (simp add: clean_def list_all_iff)
qed

lemma path_set_closed: "\<not> path_set CHR ''%''" "\<forall>c \<in> set ''0123456789ABCDEF''. \<not> path_set c"
  by (simp_all add: path_set_def query_set_def c0_control_set_def)

lemma userinfo_set_closed: "\<not> userinfo_set CHR ''%''" "\<forall>c \<in> set ''0123456789ABCDEF''. \<not> userinfo_set c"
  by (simp_all add: userinfo_set_def path_set_def query_set_def c0_control_set_def)

lemma special_query_set_closed:
  "\<not> special_query_set CHR ''%''" "\<forall>c \<in> set ''0123456789ABCDEF''. \<not> special_query_set c"
  by (simp_all add: special_query_set_def query_set_def c0_control_set_def)

lemma fragment_set_closed: "\<not> fragment_set CHR ''%''" "\<forall>c \<in> set ''0123456789ABCDEF''. \<not> fragment_set c"
  by (simp_all add: fragment_set_def c0_control_set_def)

lemmas clean_encoded =
  clean_percent_encode [OF path_set_closed] clean_percent_encode [OF userinfo_set_closed]
  clean_percent_encode [OF special_query_set_closed] clean_percent_encode [OF fragment_set_closed]

subsection \<open>Prefixes up to a delimiter\<close>

lemma takeWhile_all: "list_all P xs \<Longrightarrow> (ys = [] \<or> \<not> P (hd ys)) \<Longrightarrow> takeWhile P (xs @ ys) = xs"
proof (induction xs)
  case Nil
  then show ?case by (cases ys) auto
next
  case (Cons a xs)
  then show ?case by auto
qed

lemma dropWhile_all: "list_all P xs \<Longrightarrow> (ys = [] \<or> \<not> P (hd ys)) \<Longrightarrow> dropWhile P (xs @ ys) = ys"
proof (induction xs)
  case Nil
  then show ?case by (cases ys) auto
next
  case (Cons a xs)
  then show ?case by auto
qed

subsection \<open>Paths\<close>

lemma split_slashes_nonempty: "split_slashes s \<noteq> []"
  by (induction s) (auto split: list.splits)

lemma split_slashes_no_slash: "list_all (\<lambda>p. \<not> list_ex is_slash p) (split_slashes s)"
  by (induction s) (auto split: list.splits)

lemma split_slashes_prefix:
  "\<not> list_ex is_slash s \<Longrightarrow> split_slashes (s @ rest) = (s @ hd (split_slashes rest)) # tl (split_slashes rest)"
proof (induction s)
  case Nil
  then show ?case using split_slashes_nonempty [of rest] by simp
next
  case (Cons a s)
  then show ?case by (auto split: list.splits)
qed

lemma split_slashes_join:
  "list_all (\<lambda>seg. \<not> list_ex is_slash seg) (s # segs) \<Longrightarrow>
   split_slashes (s @ concat (map (\<lambda>seg. CHR ''/'' # seg) segs)) = s # segs"
proof (induction segs arbitrary: s)
  case Nil
  then show ?case using split_slashes_prefix [of s "[]"] by simp
next
  case (Cons t segs)
  have "split_slashes (CHR ''/'' # t @ concat (map (\<lambda>seg. CHR ''/'' # seg) segs)) = [] # t # segs"
    using Cons.IH [of t] Cons.prems by (simp add: is_slash_def)
  then show ?case
    using Cons.prems split_slashes_prefix [of s "CHR ''/'' # t @ concat (map (\<lambda>seg. CHR ''/'' # seg) segs)"]
    by simp
qed

lemma path_segments_wf: "list_all wf_segment segs \<Longrightarrow> path_segments acc segs = acc @ segs"
  by (induction segs arbitrary: acc) (auto simp: wf_segment_def percent_encode_clean Let_def)

lemma parse_path_pathname:
  assumes "segs \<noteq> []" and "list_all wf_segment segs"
  shows "parse_path (concat (map (\<lambda>seg. CHR ''/'' # seg) segs)) = segs"
proof -
  obtain s rest where segs: "segs = s # rest" using assms(1) by (cases segs) auto
  have ns: "list_all (\<lambda>seg. \<not> list_ex is_slash seg) (s # rest)"
    using assms(2) unfolding segs by (auto simp: wf_segment_def list_all_iff)
  show ?thesis
    using split_slashes_join [OF ns] path_segments_wf [OF assms(2), of "[]"]
    by (simp add: parse_path_def segs is_slash_def)
qed

lemma percent_encode_no_slash:
  "\<not> list_ex is_slash piece \<Longrightarrow> \<not> list_ex is_slash (percent_encode S piece)"
proof (induction piece)
  case Nil
  then show ?case by (simp add: percent_encode_def)
next
  case (Cons a piece)
  have e: "percent_encode S (a # piece) = (if S a then percent_encode_byte a else [a]) @ percent_encode S piece"
    by (simp add: percent_encode_def)
  have b: "\<not> is_slash c" if "c \<in> set (percent_encode_byte a)" for c
    using percent_encode_byte_chars [OF that] by (auto simp: is_slash_def)
  show ?case
    using Cons b unfolding e by (auto simp: list_ex_iff)
qed

lemma wf_segment_Nil: "wf_segment []"
  by (simp add: wf_segment_def clean_def single_dot_def double_dot_def toLowerCase_def)

lemma path_segments_keep_wf:
  "list_all wf_segment acc \<Longrightarrow> list_all (\<lambda>p. \<not> list_ex is_slash p) pieces \<Longrightarrow>
   list_all wf_segment (path_segments acc pieces)"
proof (induction pieces arbitrary: acc)
  case Nil
  then show ?case by simp
next
  case (Cons piece pieces)
  have seg: "\<not> single_dot (percent_encode path_set piece) \<Longrightarrow> \<not> double_dot (percent_encode path_set piece)
      \<Longrightarrow> wf_segment (percent_encode path_set piece)"
    using Cons.prems(2) percent_encode_no_slash [of piece path_set] clean_encoded(1) [of piece]
    by (simp add: wf_segment_def)
  have bl: "list_all wf_segment (butlast acc)"
    using Cons.prems(1) by (auto simp: list_all_iff dest: in_set_butlastD)
  show ?case
    using Cons.IH Cons.prems seg bl wf_segment_Nil by (auto simp: Let_def)
qed

lemma path_segments_nonempty: "pieces \<noteq> [] \<Longrightarrow> path_segments acc pieces \<noteq> []"
proof (induction pieces arbitrary: acc)
  case Nil
  then show ?case by simp
next
  case (Cons piece pieces)
  show ?case
  proof (cases "pieces = []")
    case True
    then show ?thesis by (simp add: Let_def)
  next
    case False
    then show ?thesis using Cons.IH by (simp add: Let_def)
  qed
qed

lemma parse_path_wf: "parse_path s \<noteq> [] \<and> list_all wf_segment (parse_path s)"
  unfolding parse_path_def
  using path_segments_nonempty [OF split_slashes_nonempty]
    path_segments_keep_wf [OF _ split_slashes_no_slash, of "[]"]
  by simp

subsection \<open>Search parameters\<close>

lemma split_on_nonempty: "split_on c s \<noteq> []"
  by (induction s) (auto split: list.splits)

lemma split_on_prefix:
  "c \<notin> set s \<Longrightarrow> split_on c (s @ rest) = (s @ hd (split_on c rest)) # tl (split_on c rest)"
proof (induction s)
  case Nil
  then show ?case using split_on_nonempty [of c rest] by simp
next
  case (Cons a s)
  then show ?case by (auto split: list.splits)
qed

lemma split_on_none: "c \<notin> set s \<Longrightarrow> split_on c s = [s]"
  using split_on_prefix [of c s "[]"] by simp

lemma split_on_join:
  "list_all (\<lambda>p. c \<notin> set p) (p # ps) \<Longrightarrow> split_on c (join_with [c] (p # ps)) = p # ps"
proof (induction ps arbitrary: p)
  case Nil
  then show ?case by (simp add: split_on_none)
next
  case (Cons q ps)
  have "split_on c (c # join_with [c] (q # ps)) = [] # q # ps"
    using Cons.IH [of q] Cons.prems by simp
  then show ?case
    using Cons.prems split_on_prefix [of c p "c # join_with [c] (q # ps)"] by simp
qed

lemma percent_decode_Cons: "x \<noteq> CHR ''%'' \<Longrightarrow> percent_decode (x # xs) = x # percent_decode xs"
  by (cases xs rule: percent_decode.cases) auto

lemma hex_upper_props:
  "list_all (\<lambda>k. is_hex_digit (hex_upper k) \<and> digit_val (hex_upper k) = k \<and>
        hex_upper k \<noteq> CHR ''+'' \<and> hex_upper k \<noteq> CHR ''%'') [0 ..< 16]"
  by code_simp

lemma hex_upper_prop:
  assumes "k < 16"
  shows "is_hex_digit (hex_upper k)" "digit_val (hex_upper k) = k"
    "hex_upper k \<noteq> CHR ''+''" "hex_upper k \<noteq> CHR ''%''"
proof -
  have "k \<in> set [0 ..< 16]" using assms by simp
  then have "is_hex_digit (hex_upper k) \<and> digit_val (hex_upper k) = k \<and>
        hex_upper k \<noteq> CHR ''+'' \<and> hex_upper k \<noteq> CHR ''%''"
    using hex_upper_props unfolding list_all_iff by blast
  then show "is_hex_digit (hex_upper k)" "digit_val (hex_upper k) = k"
    "hex_upper k \<noteq> CHR ''+''" "hex_upper k \<noteq> CHR ''%''" by blast+
qed

lemma byte_nibbles: "of_char ch div 16 < (16::nat)" "of_char ch mod 16 < (16::nat)"
  by (simp_all add: less_mult_imp_div_less)

lemma decode_encoded_byte:
  "percent_decode (plus_to_space (percent_encode_byte ch) @ rest) = ch # percent_decode rest"
proof -
  let ?h = "hex_upper (of_char ch div 16)" and ?l = "hex_upper (of_char ch mod 16)"
  have p: "plus_to_space (percent_encode_byte ch) = [CHR ''%'', ?h, ?l]"
    using hex_upper_prop(3) [OF byte_nibbles(1), of ch] hex_upper_prop(3) [OF byte_nibbles(2), of ch]
    by (simp add: plus_to_space_def percent_encode_byte_def)
  have v: "digit_val ?h * 16 + digit_val ?l = (of_char ch :: nat)"
    using hex_upper_prop(2) [OF byte_nibbles(1), of ch] hex_upper_prop(2) [OF byte_nibbles(2), of ch]
    by simp
  show ?thesis
    using hex_upper_prop(1) [OF byte_nibbles(1), of ch] hex_upper_prop(1) [OF byte_nibbles(2), of ch]
    by (simp add: p v)
qed

lemma urlencoded_safe_not_special:
  "urlencoded_safe ch \<Longrightarrow> ch \<noteq> CHR ''+'' \<and> ch \<noteq> CHR ''%'' \<and> ch \<noteq> CHR ''&'' \<and> ch \<noteq> CHR ''=''
     \<and> \<not> special_query_set ch"
  by (auto simp: urlencoded_safe_def is_alnum_def is_alpha_def is_digit_def char_between_def
      special_query_set_def query_set_def c0_control_set_def)

lemma serialize_bytes_Cons:
  "urlencoded_serialize_bytes (ch # s) =
     (if ch = CHR '' '' then ''+'' else if urlencoded_safe ch then [ch] else percent_encode_byte ch)
     @ urlencoded_serialize_bytes s"
  by (simp add: urlencoded_serialize_bytes_def)

lemma decode_serialized_bytes: "percent_decode (plus_to_space (urlencoded_serialize_bytes s)) = s"
proof (induction s)
  case Nil
  show ?case by (simp add: urlencoded_serialize_bytes_def plus_to_space_def)
next
  case (Cons ch s)
  let ?rest = "plus_to_space (urlencoded_serialize_bytes s)"
  consider "ch = CHR '' ''" | "ch \<noteq> CHR '' ''" "urlencoded_safe ch" | "ch \<noteq> CHR '' ''" "\<not> urlencoded_safe ch"
    by blast
  then show ?case
  proof cases
    case 1
    then have "plus_to_space (urlencoded_serialize_bytes (ch # s)) = CHR '' '' # ?rest"
      by (simp add: serialize_bytes_Cons plus_to_space_def)
    then show ?thesis using Cons 1 by (simp add: percent_decode_Cons)
  next
    case 2
    then have "plus_to_space (urlencoded_serialize_bytes (ch # s)) = ch # ?rest"
      using urlencoded_safe_not_special [of ch] by (simp add: serialize_bytes_Cons plus_to_space_def)
    then show ?thesis using Cons urlencoded_safe_not_special [OF 2(2)] by (simp add: percent_decode_Cons)
  next
    case 3
    then have "plus_to_space (urlencoded_serialize_bytes (ch # s)) = plus_to_space (percent_encode_byte ch) @ ?rest"
      by (simp add: serialize_bytes_Cons plus_to_space_def)
    then show ?thesis using Cons by (simp add: decode_encoded_byte)
  qed
qed

lemma serialized_bytes_chars:
  assumes "c \<in> set (urlencoded_serialize_bytes s)"
  shows "c = CHR ''+'' \<or> urlencoded_safe c \<or> c = CHR ''%'' \<or> c \<in> set ''0123456789ABCDEF''"
  using assms
proof (induction s)
  case Nil
  then show ?case by (simp add: urlencoded_serialize_bytes_def)
next
  case (Cons ch s)
  from Cons.prems consider
      (plus) "c = CHR ''+''" | (safe) "urlencoded_safe ch" "c = ch"
    | (enc) "c \<in> set (percent_encode_byte ch)" | (rest) "c \<in> set (urlencoded_serialize_bytes s)"
    unfolding serialize_bytes_Cons by (auto split: if_splits)
  then show ?case
  proof cases
    case plus
    then show ?thesis by blast
  next
    case safe
    then show ?thesis by blast
  next
    case enc
    then show ?thesis using percent_encode_byte_chars [OF enc] by blast
  next
    case rest
    then show ?thesis using Cons.IH by blast
  qed
qed

lemma not_hex_upper_delims:
  "CHR ''&'' \<notin> set ''0123456789ABCDEF''" "CHR ''='' \<notin> set ''0123456789ABCDEF''"
  "CHR ''#'' \<notin> set ''0123456789ABCDEF''"
  by simp_all

lemma serialized_bytes_no_delims:
  "CHR ''&'' \<notin> set (urlencoded_serialize_bytes s)" "CHR ''='' \<notin> set (urlencoded_serialize_bytes s)"
proof -
  have a: "\<not> urlencoded_safe CHR ''&''" "\<not> urlencoded_safe CHR ''=''"
    by (simp_all add: urlencoded_safe_def is_alnum_def is_alpha_def is_digit_def char_between_def)
  show "CHR ''&'' \<notin> set (urlencoded_serialize_bytes s)"
    using serialized_bytes_chars [of "CHR ''&''" s] a(1) not_hex_upper_delims(1) by blast
  show "CHR ''='' \<notin> set (urlencoded_serialize_bytes s)"
    using serialized_bytes_chars [of "CHR ''=''" s] a(2) not_hex_upper_delims(2) by blast
qed

lemma parse_serialized_pair:
  "(percent_decode (plus_to_space (takeWhile (\<lambda>ch. ch \<noteq> CHR ''='')
        (urlencoded_serialize_bytes n @ ''='' @ urlencoded_serialize_bytes v))),
    percent_decode (plus_to_space (drop 1 (dropWhile (\<lambda>ch. ch \<noteq> CHR ''='')
        (urlencoded_serialize_bytes n @ ''='' @ urlencoded_serialize_bytes v))))) = (n, v)"
proof -
  have a: "list_all (\<lambda>ch. ch \<noteq> CHR ''='') (urlencoded_serialize_bytes n)"
    using serialized_bytes_no_delims(2) [of n] by (auto simp: list_all_iff)
  have t: "takeWhile (\<lambda>ch. ch \<noteq> CHR ''='') (urlencoded_serialize_bytes n @ CHR ''='' # urlencoded_serialize_bytes v)
      = urlencoded_serialize_bytes n"
    by (rule takeWhile_all [OF a]) simp
  have d: "dropWhile (\<lambda>ch. ch \<noteq> CHR ''='') (urlencoded_serialize_bytes n @ CHR ''='' # urlencoded_serialize_bytes v)
      = CHR ''='' # urlencoded_serialize_bytes v"
    by (rule dropWhile_all [OF a]) simp
  show ?thesis
    by (simp add: t d decode_serialized_bytes)
qed

lemma urlencoded_parse_serialize: "urlencoded_parse (urlencoded_serialize l) = l"
proof (cases l)
  case Nil
  then show ?thesis by (simp add: urlencoded_parse_def urlencoded_serialize_def)
next
  case (Cons x xs)
  let ?pair = "\<lambda>(n, v). urlencoded_serialize_bytes n @ ''='' @ urlencoded_serialize_bytes v"
  have na: "list_all (\<lambda>p. CHR ''&'' \<notin> set p) (map ?pair l)"
    using serialized_bytes_no_delims(1) by (auto simp: list_all_iff)
  have ne: "filter (\<lambda>piece. piece \<noteq> []) (map ?pair l) = map ?pair l"
    by (induction l) auto
  have s: "split_on CHR ''&'' (urlencoded_serialize l) = map ?pair l"
    using split_on_join [of "CHR ''&''" "?pair x" "map ?pair xs"] na
    unfolding urlencoded_serialize_def Cons by simp
  have m: "map (\<lambda>piece.
            (percent_decode (plus_to_space (takeWhile (\<lambda>ch. ch \<noteq> CHR ''='') piece)),
             percent_decode (plus_to_space (drop 1 (dropWhile (\<lambda>ch. ch \<noteq> CHR ''='') piece)))))
          (map ?pair l) = l"
    using parse_serialized_pair by (induction l) auto
  show ?thesis
    unfolding urlencoded_parse_def s ne by (rule m)
qed

lemma foldl_delete_param:
  "foldl (\<lambda>l param. delete_param param l) l names = filter (\<lambda>(n, v). n \<notin> set names) l"
proof (induction names arbitrary: l)
  case Nil
  show ?case by simp
next
  case (Cons a names)
  have "foldl (\<lambda>l param. delete_param param l) l (a # names)
      = filter (\<lambda>(n, v). n \<notin> set names) (delete_param a l)"
    using Cons.IH [of "delete_param a l"] by simp
  also have "\<dots> = filter (\<lambda>(n, v). n \<notin> set (a # names)) l"
    by (auto simp: delete_param_def intro!: filter_cong)
  finally show ?case .
qed

lemma join_with_chars: "c \<in> set (join_with sep ps) \<Longrightarrow> c \<in> set sep \<or> (\<exists>p \<in> set ps. c \<in> set p)"
  by (induction sep ps rule: join_with.induct) auto

lemma clean_serialized_query: "clean special_query_set (urlencoded_serialize l)"
proof -
  have h: "\<not> special_query_set c" if "c \<in> set ''0123456789ABCDEF''" for c
    using that special_query_set_closed(2) by blast
  have d: "\<not> special_query_set CHR ''+''" "\<not> special_query_set CHR ''&''" "\<not> special_query_set CHR ''=''"
    by (simp_all add: special_query_set_def query_set_def c0_control_set_def)
  have b: "\<not> special_query_set c" if "c \<in> set (urlencoded_serialize_bytes s)" for c s
    using serialized_bytes_chars [OF that] urlencoded_safe_not_special [of c] h [of c] d(1)
      special_query_set_closed(1) by blast
  have "\<not> special_query_set c" if c: "c \<in> set (urlencoded_serialize l)" for c
  proof -
    from join_with_chars [OF c [unfolded urlencoded_serialize_def]]
    consider "c = CHR ''&''" | n v where "c \<in> set (urlencoded_serialize_bytes n @ ''='' @ urlencoded_serialize_bytes v)"
      by auto
    then show ?thesis
    proof cases
      case 1
      then show ?thesis using d(2) by simp
    next
      case 2
      then have "c \<in> set (urlencoded_serialize_bytes n) \<or> c = CHR ''='' \<or> c \<in> set (urlencoded_serialize_bytes v)"
        by auto
      then show ?thesis using b d(3) by blast
    qed
  qed
  then show ?thesis by (simp add: clean_def list_all_iff)
qed

lemma searchParams_update_query:
  "list_all (\<lambda>(n, v). is_ascii n \<and> is_ascii v) l \<Longrightarrow> searchParams (update_query l u) = Some l"
proof -
  assume a: "list_all (\<lambda>(n, v). is_ascii n \<and> is_ascii v) l"
  have "urlencoded_parse (case query (update_query l u) of None \<Rightarrow> [] | Some q \<Rightarrow> q) = l"
    using urlencoded_parse_serialize [of l] by (auto simp: update_query_def)
  then show ?thesis using a by (simp add: searchParams_def Let_def)
qed

subsection \<open>Lower case\<close>

lemma of_char_to_lower_upper:
  assumes "char_between CHR ''A'' CHR ''Z'' ch"
  shows "(of_char (to_lower ch) :: nat) = of_char ch + 32"
proof -
  have "(of_char ch :: nat) + 32 < 256" using assms by (simp add: char_between_def)
  then have "((of_char ch :: nat) + 32) mod 256 = of_char ch + 32" by (intro mod_less)
  then show ?thesis using assms unfolding to_lower_def by (simp only: if_True of_char_of)
qed

lemma of_char_to_lower:
  "(of_char (to_lower ch) :: nat) = (if char_between CHR ''A'' CHR ''Z'' ch then of_char ch + 32 else of_char ch)"
  using of_char_to_lower_upper [of ch] by (simp add: to_lower_def [of ch])

lemma to_lower_not_upper: "\<not> char_between CHR ''A'' CHR ''Z'' (to_lower ch)"
  using of_char_to_lower [of ch] by (auto simp: char_between_def)

lemma to_lower_idem: "to_lower (to_lower ch) = to_lower ch"
  using to_lower_not_upper [of ch] by (simp add: to_lower_def [of "to_lower ch"])

lemma toLowerCase_idem: "toLowerCase (toLowerCase s) = toLowerCase s"
  by (simp add: toLowerCase_def to_lower_idem)

lemma to_lower_fixed: "\<not> char_between CHR ''A'' CHR ''Z'' ch \<Longrightarrow> to_lower ch = ch"
  by (simp add: to_lower_def)

lemma toLowerCase_fixed: "list_all (\<lambda>ch. \<not> char_between CHR ''A'' CHR ''Z'' ch) s \<Longrightarrow> toLowerCase s = s"
  by (induction s) (auto simp: toLowerCase_def to_lower_fixed)

lemma to_lower_eq_iff:
  assumes "\<not> is_alpha c"
  shows "to_lower ch = c \<longleftrightarrow> ch = c"
proof (cases "char_between CHR ''A'' CHR ''Z'' ch")
  case True
  then have "char_between CHR ''a'' CHR ''z'' (to_lower ch)"
    using of_char_to_lower_upper [OF True] by (simp add: char_between_def)
  then have "to_lower ch \<noteq> c" using assms by (auto simp: is_alpha_def)
  moreover have "ch \<noteq> c" using True assms by (auto simp: is_alpha_def)
  ultimately show ?thesis by simp
next
  case False
  then show ?thesis by (simp add: to_lower_def)
qed

lemma is_ascii_toLowerCase: "is_ascii s \<Longrightarrow> is_ascii (toLowerCase s)"
proof -
  have "(of_char ch :: nat) < 128 \<Longrightarrow> (of_char (to_lower ch) :: nat) < 128" for ch
    using of_char_to_lower [of ch] by (auto simp: char_between_def)
  then show "is_ascii s \<Longrightarrow> is_ascii (toLowerCase s)"
    by (induction s) (auto simp: is_ascii_def toLowerCase_def)
qed

lemma split_on_toLowerCase:
  "\<not> is_alpha c \<Longrightarrow>
   split_on c (toLowerCase s) = map toLowerCase (split_on c s)"
proof (induction s)
  case Nil
  show ?case by (simp add: toLowerCase_def)
next
  case (Cons a s)
  have e: "to_lower a = c \<longleftrightarrow> a = c" by (rule to_lower_eq_iff [OF Cons.prems])
  have ne: "split_on c s \<noteq> []" by (induction s) (auto split: list.splits)
  show ?case
    using Cons.IH [OF Cons.prems] e ne
    by (cases "split_on c s") (auto simp: toLowerCase_def)
qed

lemma has_xn_label_toLowerCase: "has_xn_label (toLowerCase d) = has_xn_label d"
proof -
  have "\<not> is_alpha CHR ''.''" by (simp add: is_alpha_def char_between_def)
  from split_on_toLowerCase [OF this, of d]
  show ?thesis
    by (simp add: has_xn_label_def list_ex_iff toLowerCase_idem)
qed

subsection \<open>Decimal numerals\<close>

lemma read_radix_snoc: "read_radix r (s @ [ch]) = read_radix r s * r + digit_val ch"
  by (simp add: read_radix_def)

lemma digit_char_props:
  "list_all (\<lambda>k. is_digit (digit_char k) \<and> digit_val (digit_char k) = k) [0 ..< 10]"
  by code_simp

lemma digit_char_prop:
  assumes "k < 10"
  shows "is_digit (digit_char k)" "digit_val (digit_char k) = k"
  using digit_char_props assms by (auto simp: list_all_iff)

lemma show_radix_digits: "list_all is_digit (show_radix 10 n)"
proof (induction "10::nat" n rule: show_radix.induct)
  case (1 n)
  show ?case
  proof (cases "n < 10")
    case True
    then show ?thesis by (subst show_radix.simps) (simp add: digit_char_prop del: show_radix.simps)
  next
    case False
    then have "list_all is_digit (show_radix 10 (n div 10))" using 1 by (simp del: show_radix.simps)
    moreover have "is_digit (digit_char (n mod 10))" by (rule digit_char_prop) simp
    ultimately show ?thesis using False by (subst show_radix.simps) (simp del: show_radix.simps)
  qed
qed

lemma read_show_radix: "read_radix 10 (show_radix 10 n) = n"
proof (induction "10::nat" n rule: show_radix.induct)
  case (1 n)
  show ?case
  proof (cases "n < 10")
    case True
    then show ?thesis by (subst show_radix.simps) (simp add: read_radix_def digit_char_prop del: show_radix.simps)
  next
    case False
    then have "read_radix 10 (show_radix 10 (n div 10)) = n div 10" using 1 by (simp del: show_radix.simps)
    moreover have "digit_val (digit_char (n mod 10)) = n mod 10" by (rule digit_char_prop) simp
    ultimately show ?thesis using False by (subst show_radix.simps) (simp add: read_radix_snoc del: show_radix.simps)
  qed
qed

lemma show_radix_nonempty: "show_radix 10 n \<noteq> []"
  by (subst show_radix.simps) (simp del: show_radix.simps)

lemma parse_port_show:
  assumes "n \<le> 65535" and "default_port sch \<noteq> Some n"
  shows "parse_port sch (show_radix 10 n) = Ok (Some n)"
  using assms by (simp add: parse_port_def show_radix_digits show_radix_nonempty read_show_radix Let_def del: show_radix.simps)

lemma parse_port_wf:
  "parse_port sch buffer = Ok prt \<Longrightarrow>
   (case prt of None \<Rightarrow> True | Some n \<Rightarrow> n \<le> 65535 \<and> default_port sch \<noteq> Some n)"
  by (auto simp: parse_port_def Let_def split: if_splits)

subsection \<open>Domain hosts\<close>

lemma percent_decode_no_percent: "CHR ''%'' \<notin> set s \<Longrightarrow> percent_decode s = s"
proof (induction s)
  case Nil
  then show ?case by simp
next
  case (Cons a s)
  then have "a \<noteq> CHR ''%''" by auto
  from percent_decode_Cons [OF this, of s] Cons show ?case by simp
qed

lemma not_forbidden_chars:
  assumes "\<not> list_ex forbidden_domain_code_point d" and "c \<in> set d"
  shows "(of_char c :: nat) > 32" "c \<noteq> CHR ''%''" "c \<noteq> CHR '':''" "c \<noteq> CHR ''[''" "c \<noteq> CHR '']''"
    "c \<noteq> CHR ''@''" "\<not> authority_end c" "\<not> is_slash c"
proof -
  from assms have n: "\<not> forbidden_domain_code_point c" by (auto simp: list_ex_iff)
  from n show "(of_char c :: nat) > 32" by (simp add: forbidden_domain_code_point_def)
  from n show "c \<noteq> CHR ''%''" by (auto simp: forbidden_domain_code_point_def)
  from n show "c \<noteq> CHR '':''" by (auto simp: forbidden_domain_code_point_def)
  from n show "c \<noteq> CHR ''[''" by (auto simp: forbidden_domain_code_point_def)
  from n show "c \<noteq> CHR '']''" by (auto simp: forbidden_domain_code_point_def)
  from n show "c \<noteq> CHR ''@''" by (auto simp: forbidden_domain_code_point_def)
  from n show "\<not> authority_end c"
    by (auto simp: forbidden_domain_code_point_def authority_end_def is_slash_def)
  from n show "\<not> is_slash c" by (auto simp: forbidden_domain_code_point_def is_slash_def)
qed

lemma host_parse_domain:
  assumes "wf_host (Domain d)"
  shows "host_parse d = Ok (Domain d)"
proof -
  from assms have d: "d \<noteq> []" "is_ascii d" "\<not> list_ex forbidden_domain_code_point d"
    "toLowerCase d = d" "\<not> has_xn_label d" "\<not> ends_in_number d"
    by (simp_all add: wf_host_def)
  from d(1) have "hd d \<in> set d" by simp
  then have h: "hd d \<noteq> CHR ''[''" using not_forbidden_chars(4) [OF d(3)] by blast
  have "CHR ''%'' \<notin> set d" using not_forbidden_chars(2) [OF d(3)] by blast
  then have p: "percent_decode d = d" by (rule percent_decode_no_percent)
  show ?thesis using d h by (simp add: host_parse_def p Let_def)
qed

lemma host_parse_wf_domain:
  assumes "host_parse input = Ok (Domain d)"
  shows "wf_host (Domain d)"
proof (cases "input \<noteq> [] \<and> hd input = CHR ''[''")
  case True
  then show ?thesis using assms by (auto simp: host_parse_def split: if_splits option.splits)
next
  case False
  define domain where "domain = percent_decode input"
  from assms False have a: "is_ascii domain" "\<not> has_xn_label domain" "toLowerCase domain \<noteq> []"
    "\<not> list_ex forbidden_domain_code_point (toLowerCase domain)"
    "\<not> ends_in_number (toLowerCase domain)" "d = toLowerCase domain"
    by (auto simp: host_parse_def domain_def Let_def split: if_splits option.splits)
  show ?thesis
    using a by (simp add: wf_host_def is_ascii_toLowerCase toLowerCase_idem has_xn_label_toLowerCase)
qed

subsection \<open>Characters of the components\<close>

lemma printable_append: "printable (a @ b) \<longleftrightarrow> printable a \<and> printable b"
  by (simp add: printable_def)

lemma printable_Cons: "printable (c # s) \<longleftrightarrow> 32 < (of_char c :: nat) \<and> (of_char c :: nat) < 127 \<and> printable s"
  by (simp add: printable_def)

lemma space_code: "(of_char c :: nat) = 32 \<longleftrightarrow> c = CHR '' ''"
proof
  assume "(of_char c :: nat) = 32"
  then have "(of_char c :: nat) = of_char CHR '' ''" by simp
  then show "c = CHR '' ''" by (simp only: of_char_eq_iff)
qed simp

lemma not_query_set_chars:
  assumes n: "\<not> query_set c"
  shows "c \<noteq> CHR ''#''" "32 < (of_char c :: nat)" "(of_char c :: nat) < 127"
proof -
  from n show "c \<noteq> CHR ''#''" by (auto simp: query_set_def)
  from n have a: "(of_char c :: nat) > 31 \<and> (of_char c :: nat) \<le> 126 \<and> c \<noteq> CHR '' ''"
    by (auto simp: query_set_def c0_control_set_def)
  with space_code [of c] have "(of_char c :: nat) \<noteq> 32" by simp
  with a show "32 < (of_char c :: nat)" "(of_char c :: nat) < 127" by auto
qed

lemma not_path_set_chars:
  assumes n: "\<not> path_set c"
  shows "c \<noteq> CHR ''?''" "c \<noteq> CHR ''#''" "32 < (of_char c :: nat)" "(of_char c :: nat) < 127"
proof -
  from n have q: "\<not> query_set c" by (simp add: path_set_def)
  from n show "c \<noteq> CHR ''?''" by (auto simp: path_set_def)
  from q show "c \<noteq> CHR ''#''" "32 < (of_char c :: nat)" "(of_char c :: nat) < 127"
    by (rule not_query_set_chars)+
qed

lemma not_userinfo_set_chars:
  assumes n: "\<not> userinfo_set c"
  shows "c \<noteq> CHR '':''" "c \<noteq> CHR ''@''" "\<not> authority_end c" "\<not> is_slash c"
    "32 < (of_char c :: nat)" "(of_char c :: nat) < 127"
proof -
  from n have p: "\<not> path_set c" by (simp add: userinfo_set_def)
  from n show "c \<noteq> CHR '':''" by (auto simp: userinfo_set_def)
  from n show "c \<noteq> CHR ''@''" by (auto simp: userinfo_set_def)
  from n show s: "\<not> is_slash c" by (auto simp: userinfo_set_def is_slash_def)
  from s not_path_set_chars(1,2) [OF p] show "\<not> authority_end c" by (simp add: authority_end_def)
  from p show "32 < (of_char c :: nat)" "(of_char c :: nat) < 127"
    by (rule not_path_set_chars)+
qed

lemma not_fragment_set_chars:
  assumes n: "\<not> fragment_set c"
  shows "32 < (of_char c :: nat)" "(of_char c :: nat) < 127"
proof -
  from n have a: "(of_char c :: nat) > 31 \<and> (of_char c :: nat) \<le> 126 \<and> c \<noteq> CHR '' ''"
    by (auto simp: fragment_set_def c0_control_set_def)
  with space_code [of c] have "(of_char c :: nat) \<noteq> 32" by simp
  with a show "32 < (of_char c :: nat)" "(of_char c :: nat) < 127" by auto
qed

lemma clean_printable:
  "clean userinfo_set s \<Longrightarrow> printable s"
  "clean path_set s \<Longrightarrow> printable s"
  "clean special_query_set s \<Longrightarrow> printable s"
  "clean fragment_set s \<Longrightarrow> printable s"
  using not_userinfo_set_chars(5,6) not_path_set_chars(3,4) not_query_set_chars(2,3)
    not_fragment_set_chars
  by (auto simp: clean_def printable_def list_all_iff special_query_set_def)

lemma printable_is_ascii: "printable s \<Longrightarrow> is_ascii s"
  by (auto simp: printable_def is_ascii_def list_all_iff)

lemma dropWhile_hd: "s = [] \<or> \<not> P (hd s) \<Longrightarrow> dropWhile P s = s"
  by (cases s) auto

lemma printable_preprocess:
  assumes "printable s"
  shows "preprocess s = s"
proof -
  have a: "\<forall>c \<in> set s. \<not> c0_or_space c"
    using assms by (auto simp: printable_def list_all_iff c0_or_space_def)
  have b: "\<forall>c \<in> set s. \<not> tab_or_newline c"
    using assms by (auto simp: printable_def list_all_iff tab_or_newline_def)
  have 1: "dropWhile c0_or_space s = s"
    using a by (intro dropWhile_hd) (cases s, auto)
  have 2: "dropWhile c0_or_space (rev s) = rev s"
    using a by (intro dropWhile_hd) (cases "rev s", simp, metis hd_rev last_in_set rev_is_Nil_conv set_rev list.set_sel(1))
  have 3: "filter (\<lambda>ch. \<not> tab_or_newline ch) s = s"
    using b by (simp add: filter_id_conv)
  show ?thesis by (simp add: preprocess_def 1 2 3)
qed

subsection \<open>Reading a serialized URL\<close>

lemma split_scheme_special:
  assumes "sch \<in> set [''http'', ''https'', ''ftp'', ''ws'', ''wss'']"
  shows "split_scheme (sch @ ''://'' @ rest) = Some (sch, ''//'' @ rest)"
proof -
  from assms consider "sch = ''http''" | "sch = ''https''" | "sch = ''ftp''" | "sch = ''ws''" | "sch = ''wss''"
    by auto
  then show ?thesis
    by cases (simp_all add: split_scheme_def scheme_char_def is_alnum_def is_alpha_def is_digit_def
        char_between_def toLowerCase_def to_lower_def Let_def)
qed

lemma split_credentials_some:
  assumes "CHR ''@'' \<notin> set h"
  shows "split_credentials (c @ ''@'' @ h) = (Some c, h)"
proof -
  have r: "rev (c @ ''@'' @ h) = rev h @ CHR ''@'' # rev c" by simp
  have t: "takeWhile (\<lambda>ch. ch \<noteq> CHR ''@'') (rev h @ CHR ''@'' # rev c) = rev h"
    using assms by (subst takeWhile_append2) auto
  have d: "dropWhile (\<lambda>ch. ch \<noteq> CHR ''@'') (rev h @ CHR ''@'' # rev c) = CHR ''@'' # rev c"
    using assms by (subst dropWhile_append2) auto
  show ?thesis unfolding split_credentials_def r t d by simp
qed

lemma split_credentials_none: "CHR ''@'' \<notin> set h \<Longrightarrow> split_credentials h = (None, h)"
  by (simp add: split_credentials_def)

lemma split_host_port_prefix:
  assumes "\<forall>c \<in> set d. c \<noteq> CHR '':'' \<and> c \<noteq> CHR ''['' \<and> c \<noteq> CHR '']''"
  shows "split_host_port False (d @ rest)
         = (d @ fst (split_host_port False rest), snd (split_host_port False rest))"
  using assms by (induction d) (simp_all add: Let_def split: prod.splits)

lemma split_host_port_domain:
  assumes "\<forall>c \<in> set d. c \<noteq> CHR '':'' \<and> c \<noteq> CHR ''['' \<and> c \<noteq> CHR '']''"
  shows "split_host_port False d = (d, None)"
    "split_host_port False (d @ '':'' @ p) = (d, Some p)"
  using split_host_port_prefix [OF assms, of "[]"] split_host_port_prefix [OF assms, of "'':'' @ p"]
  by simp_all

lemma split_user_pass:
  assumes "CHR '':'' \<notin> set user"
  shows "takeWhile (\<lambda>ch. ch \<noteq> CHR '':'') (user @ (if pass \<noteq> [] then '':'' @ pass else [])) = user"
    "drop (length user + 1) (user @ (if pass \<noteq> [] then '':'' @ pass else [])) = pass"
proof -
  show "takeWhile (\<lambda>ch. ch \<noteq> CHR '':'') (user @ (if pass \<noteq> [] then '':'' @ pass else [])) = user"
    using assms by (subst takeWhile_append2) auto
  show "drop (length user + 1) (user @ (if pass \<noteq> [] then '':'' @ pass else [])) = pass"
    by simp
qed

lemma takeWhile_until:
  assumes "\<forall>c \<in> set xs. P c" and "ys = [] \<or> \<not> P (hd ys)"
  shows "takeWhile P (xs @ ys) = xs" "dropWhile P (xs @ ys) = ys"
proof -
  from assms(2) have t: "takeWhile P ys = []" and d: "dropWhile P ys = ys" by (cases ys; simp)+
  show "takeWhile P (xs @ ys) = xs" using assms(1) by (subst takeWhile_append2) (auto simp: t)
  show "dropWhile P (xs @ ys) = ys" using assms(1) by (subst dropWhile_append2) (auto simp: d)
qed

lemma pathname_chars:
  assumes "list_all wf_segment segs" and "c \<in> set (concat (map (\<lambda>seg. CHR ''/'' # seg) segs))"
  shows "c \<noteq> CHR ''?''" "c \<noteq> CHR ''#''" "32 < (of_char c :: nat)" "(of_char c :: nat) < 127"
proof -
  from assms(2) consider "c = CHR ''/''" | seg where "seg \<in> set segs" "c \<in> set seg"
    by (auto split: if_splits)
  then have "c = CHR ''/'' \<or> \<not> path_set c"
  proof cases
    case 1
    then show ?thesis by simp
  next
    case 2
    with assms(1) have "clean path_set seg" by (auto simp: list_all_iff wf_segment_def)
    with 2 show ?thesis by (auto simp: clean_def list_all_iff)
  qed
  then show "c \<noteq> CHR ''?''" "c \<noteq> CHR ''#''" "32 < (of_char c :: nat)" "(of_char c :: nat) < 127"
    using not_path_set_chars [of c] by auto
qed

lemma digit_chars:
  assumes "is_digit c"
  shows "c \<noteq> CHR ''@''" "\<not> authority_end c" "32 < (of_char c :: nat)" "(of_char c :: nat) < 127"
  using assms by (auto simp: is_digit_def char_between_def authority_end_def is_slash_def)

lemma parse_special_serialized:
  assumes sch: "sch \<in> set [''http'', ''https'', ''ftp'', ''ws'', ''wss'']"
    and u: "clean userinfo_set user" and pw: "clean userinfo_set pass"
    and h: "wf_host (Domain d)"
    and p: "case prt of None \<Rightarrow> True | Some n \<Rightarrow> n \<le> 65535 \<and> default_port sch \<noteq> Some n"
    and segs: "segs \<noteq> []" "list_all wf_segment segs"
    and q: "case qry of None \<Rightarrow> True | Some q \<Rightarrow> clean special_query_set q"
    and f: "case frg of None \<Rightarrow> True | Some f \<Rightarrow> clean fragment_set f"
  shows "parse_special sch (''//'' @
       (if user \<noteq> [] \<or> pass \<noteq> [] then user @ (if pass \<noteq> [] then '':'' @ pass else []) @ ''@'' else []) @
       d @ (case prt of None \<Rightarrow> [] | Some p \<Rightarrow> '':'' @ show_radix 10 p) @
       concat (map (\<lambda>seg. CHR ''/'' # seg) segs) @
       (case qry of None \<Rightarrow> [] | Some q \<Rightarrow> ''?'' @ q) @
       (case frg of None \<Rightarrow> [] | Some f \<Rightarrow> ''#'' @ f))
     = Parsed \<lparr>scheme = sch, username = user, password = pass, url_host = Domain d,
               url_port = prt, path = segs, query = qry, fragment = frg\<rparr>"
proof -
  define cred where "cred = user @ (if pass \<noteq> [] then '':'' @ pass else [])"
  define cr where "cr = (if user \<noteq> [] \<or> pass \<noteq> [] then Some cred else None)"
  define C where "C = (if user \<noteq> [] \<or> pass \<noteq> [] then user @ (if pass \<noteq> [] then '':'' @ pass else []) @ ''@'' else [])"
  define pt where "pt = map_option (show_radix 10) prt"
  define HP where "HP = d @ (case prt of None \<Rightarrow> [] | Some p \<Rightarrow> '':'' @ show_radix 10 p)"
  define P where "P = concat (map (\<lambda>seg. CHR ''/'' # seg) segs)"
  define F where "F = (case frg of None \<Rightarrow> [] | Some f \<Rightarrow> ''#'' @ f)"
  define QF where "QF = (case qry of None \<Rightarrow> [] | Some q \<Rightarrow> ''?'' @ q) @ F"
  define T where "T = P @ QF"
  define A where "A = C @ HP"
  define input where "input = ''//'' @ A @ T"
  from h have d: "d \<noteq> []" "\<not> list_ex forbidden_domain_code_point d" by (simp_all add: wf_host_def)
  note dc = not_forbidden_chars [OF d(2)]
  note uc = not_userinfo_set_chars
  have user_chars: "\<forall>c \<in> set user. \<not> userinfo_set c" and pass_chars: "\<forall>c \<in> set pass. \<not> userinfo_set c"
    using u pw by (auto simp: clean_def list_all_iff)
  have port_digits: "\<forall>c \<in> set (show_radix 10 n). is_digit c" for n
    using show_radix_digits [of n] by (simp add: list_all_iff del: show_radix.simps)
  have colon: "\<not> authority_end CHR '':''" "\<not> authority_end CHR ''@''" "CHR '':'' \<noteq> CHR ''@''"
    by (simp_all add: authority_end_def is_slash_def)
  have cred_chars: "\<not> authority_end c" if "c \<in> set cred" for c
  proof -
    from that have "c \<in> set user \<or> c = CHR '':'' \<or> c \<in> set pass"
      by (auto simp: cred_def split: if_splits)
    then show ?thesis using user_chars pass_chars uc(3) colon(1) by blast
  qed
  have C_chars: "\<not> authority_end c" if "c \<in> set C" for c
  proof -
    from that have "c \<in> set cred \<or> c = CHR ''@''" by (auto simp: C_def cred_def split: if_splits)
    then show ?thesis using cred_chars colon(2) by blast
  qed
  have HP_chars: "\<not> authority_end c \<and> c \<noteq> CHR ''@''" if "c \<in> set HP" for c
  proof -
    from that have "c \<in> set d \<or> c = CHR '':'' \<or> (\<exists>n. c \<in> set (show_radix 10 n))"
      by (auto simp: HP_def split: option.splits simp del: show_radix.simps)
    then show ?thesis using dc(6,7) port_digits digit_chars(1,2) colon by blast
  qed
  have A_chars: "\<forall>c \<in> set A. \<not> authority_end c" using C_chars HP_chars by (auto simp: A_def)
  have HP_at: "CHR ''@'' \<notin> set HP" using HP_chars by blast
  have A_ne: "A \<noteq> []" using d by (simp add: A_def HP_def)
  have P_ne: "P \<noteq> []" "hd P = CHR ''/''" using segs(1) by (cases segs; simp add: P_def)+
  have T_hd: "T \<noteq> []" "hd T = CHR ''/''" using P_ne by (simp_all add: T_def)
  have f1: "dropWhile is_slash input = A @ T"
  proof -
    have "hd (A @ T) \<in> set A" using A_ne by (cases A) auto
    then have "\<not> is_slash (hd (A @ T))" using A_chars by (auto simp: authority_end_def)
    then have "dropWhile is_slash (A @ T) = A @ T" by (intro dropWhile_hd) simp
    then show ?thesis by (simp add: input_def is_slash_def)
  qed
  have f2: "takeWhile (\<lambda>ch. \<not> authority_end ch) (A @ T) = A"
    and f3: "dropWhile (\<lambda>ch. \<not> authority_end ch) (A @ T) = T"
    using takeWhile_until [of A "\<lambda>ch. \<not> authority_end ch" T] A_chars T_hd
    by (simp_all add: authority_end_def is_slash_def)
  have f4: "split_credentials A = (cr, HP)"
  proof (cases "user \<noteq> [] \<or> pass \<noteq> []")
    case True
    then have "A = cred @ ''@'' @ HP" by (simp add: A_def C_def cred_def)
    moreover note HP_at
    ultimately show ?thesis using True split_credentials_some [of HP cred] by (simp add: cr_def)
  next
    case False
    then have "A = HP" by (simp add: A_def C_def)
    moreover note HP_at
    ultimately show ?thesis using False split_credentials_none [of HP] by (simp add: cr_def)
  qed
  have dch: "\<forall>c \<in> set d. c \<noteq> CHR '':'' \<and> c \<noteq> CHR ''['' \<and> c \<noteq> CHR '']''"
    using dc(3,4,5) by blast
  have f5: "split_host_port False HP = (d, pt)"
    using split_host_port_domain [OF dch] by (cases prt) (simp_all add: HP_def pt_def)
  have f7: "host_parse d = Ok (Domain d)" by (rule host_parse_domain [OF h])
  have f8: "parse_port sch (case pt of None \<Rightarrow> [] | Some t \<Rightarrow> t) = Ok prt"
  proof (cases prt)
    case None
    then show ?thesis by (simp add: pt_def parse_port_def)
  next
    case (Some n)
    with p show ?thesis using parse_port_show [of n sch] by (simp add: pt_def del: show_radix.simps)
  qed
  have f9: "(case cr of None \<Rightarrow> [] | Some c \<Rightarrow> c) = cred"
    by (auto simp: cr_def cred_def)
  have user_colon: "CHR '':'' \<notin> set user" using user_chars uc(1) by blast
  have f10: "takeWhile (\<lambda>ch. ch \<noteq> CHR '':'') cred = user"
    and f11: "drop (Suc (length user)) cred = pass"
    using split_user_pass [OF user_colon, of pass] by (simp_all add: cred_def)
  have P_chars: "\<forall>c \<in> set P. c \<noteq> CHR ''?'' \<and> c \<noteq> CHR ''#''"
    using pathname_chars(1,2) [OF segs(2)] by (auto simp: P_def)
  have QF_hd: "QF = [] \<or> \<not> (hd QF \<noteq> CHR ''?'' \<and> hd QF \<noteq> CHR ''#'')"
    by (auto simp: QF_def F_def split: option.splits)
  have f12: "takeWhile (\<lambda>ch. ch \<noteq> CHR ''?'' \<and> ch \<noteq> CHR ''#'') T = P"
    and f13: "dropWhile (\<lambda>ch. ch \<noteq> CHR ''?'' \<and> ch \<noteq> CHR ''#'') T = QF"
    using takeWhile_until [of P "\<lambda>ch. ch \<noteq> CHR ''?'' \<and> ch \<noteq> CHR ''#''" QF] P_chars QF_hd
    by (simp_all add: T_def)
  have f14: "parse_path P = segs" unfolding P_def by (rule parse_path_pathname [OF segs])
  have F_hd: "F = [] \<or> \<not> hd F \<noteq> CHR ''#''" by (auto simp: F_def split: option.splits)
  have f15: "(if QF \<noteq> [] \<and> hd QF = CHR ''?'' then Some (takeWhile (\<lambda>ch. ch \<noteq> CHR ''#'') (tl QF)) else None)
             = qry"
  proof (cases qry)
    case None
    then show ?thesis by (auto simp: QF_def F_def split: option.splits)
  next
    case (Some qt)
    with q have "\<forall>c \<in> set qt. \<not> query_set c" by (auto simp: clean_def list_all_iff special_query_set_def)
    then have "\<forall>c \<in> set qt. c \<noteq> CHR ''#''" using not_query_set_chars(1) by blast
    then have "takeWhile (\<lambda>ch. ch \<noteq> CHR ''#'') (qt @ F) = qt"
      using takeWhile_until(1) [of qt "\<lambda>ch. ch \<noteq> CHR ''#''" F] F_hd by simp
    then show ?thesis using Some by (simp add: QF_def)
  qed
  have f16: "dropWhile (\<lambda>ch. ch \<noteq> CHR ''#'') QF = F"
  proof (cases qry)
    case None
    then show ?thesis using F_hd by (cases F) (auto simp: QF_def)
  next
    case (Some qt)
    with q have "\<forall>c \<in> set qt. \<not> query_set c" by (auto simp: clean_def list_all_iff special_query_set_def)
    then have "\<forall>c \<in> set qt. c \<noteq> CHR ''#''" using not_query_set_chars(1) by blast
    then have "dropWhile (\<lambda>ch. ch \<noteq> CHR ''#'') (qt @ F) = F"
      using takeWhile_until(2) [of qt "\<lambda>ch. ch \<noteq> CHR ''#''" F] F_hd by simp
    then show ?thesis using Some by (simp add: QF_def)
  qed
  have f17: "(if F = [] then None else Some (percent_encode fragment_set (tl F))) = frg"
    using f by (cases frg) (simp_all add: F_def percent_encode_clean)
  have f18: "percent_encode userinfo_set user = user" "percent_encode userinfo_set pass = pass"
    "map_option (percent_encode special_query_set) qry = qry"
    using u pw q by (cases qry; simp add: percent_encode_clean)+
  have f19: "(F = [] \<longrightarrow> None = frg) \<and> (F \<noteq> [] \<longrightarrow> Some (percent_encode fragment_set (tl F)) = frg)"
    using f17 by (auto split: if_splits)
  have "parse_special sch input
     = Parsed \<lparr>scheme = sch, username = user, password = pass, url_host = Domain d,
               url_port = prt, path = segs, query = qry, fragment = frg\<rparr>"
    using f19
    by (simp add: parse_special_def Let_def f1 f2 f3 f4 f5 d(1) f7 f8 f9 f10 f11 f12 f13 f14 f15 f16 f18
        del: show_radix.simps dropWhile_eq_Nil_conv takeWhile_eq_Nil_iff)
  then show ?thesis
    unfolding input_def A_def C_def HP_def T_def P_def QF_def F_def by (simp only: append_assoc)
qed

subsection \<open>The serializer is read back by the parser\<close>

lemma domain_printable:
  assumes "wf_host (Domain d)"
  shows "printable d"
proof -
  from assms have a: "is_ascii d" and f: "\<not> list_ex forbidden_domain_code_point d"
    by (simp_all add: wf_host_def)
  have "32 < (of_char c :: nat) \<and> (of_char c :: nat) < 127" if "c \<in> set d" for c
  proof -
    from f that have n: "\<not> forbidden_domain_code_point c" by (auto simp: list_ex_iff)
    from a that have "(of_char c :: nat) < 128" by (auto simp: is_ascii_def list_all_iff)
    with n show ?thesis by (auto simp: forbidden_domain_code_point_def)
  qed
  then show ?thesis by (simp add: printable_def list_all_iff)
qed

lemma digits_printable: "printable (show_radix 10 n)"
  using show_radix_digits [of n] digit_chars(3,4)
  by (auto simp: printable_def list_all_iff simp del: show_radix.simps)

lemma pathname_printable: "list_all wf_segment segs \<Longrightarrow> printable (concat (map (\<lambda>seg. CHR ''/'' # seg) segs))"
  using pathname_chars(3,4) by (auto simp: printable_def list_all_iff)

lemma scheme_printable:
  "sch \<in> set [''http'', ''https'', ''ftp'', ''ws'', ''wss''] \<Longrightarrow> printable sch"
  by (auto simp: printable_def)

lemma toString_printable:
  assumes "wf_url q" and "url_host q = Domain d"
  shows "printable (toString q)"
proof -
  from assms have w: "scheme q \<in> set [''http'', ''https'', ''ftp'', ''ws'', ''wss'']"
    "clean userinfo_set (username q)" "clean userinfo_set (password q)" "wf_host (Domain d)"
    "list_all wf_segment (path q)"
    "case query q of None \<Rightarrow> True | Some t \<Rightarrow> clean special_query_set t"
    "case fragment q of None \<Rightarrow> True | Some t \<Rightarrow> clean fragment_set t"
    by (simp_all add: wf_url_def)
  have 1: "printable (scheme q)" by (rule scheme_printable [OF w(1)])
  have 2: "printable (username q)" "printable (password q)"
    using w(2,3) by (simp_all add: clean_printable(1))
  have 3: "printable (hostname q)"
    using domain_printable [OF w(4)] assms(2) by (simp add: hostname_def serialize_host_def)
  have 4: "printable (case url_port q of None \<Rightarrow> [] | Some p \<Rightarrow> '':'' @ show_radix 10 p)"
    using digits_printable by (cases "url_port q") (simp_all add: printable_def del: show_radix.simps)
  have 5: "printable (pathname q)" unfolding pathname_def by (rule pathname_printable [OF w(5)])
  have 6: "printable (case query q of None \<Rightarrow> [] | Some t \<Rightarrow> ''?'' @ t)"
    using w(6) clean_printable(3) by (cases "query q") (auto simp: printable_def)
  have 7: "printable (case fragment q of None \<Rightarrow> [] | Some t \<Rightarrow> ''#'' @ t)"
    using w(7) clean_printable(4) by (cases "fragment q") (auto simp: printable_def)
  have 8: "printable ''://''" "printable '':''" "printable ''@''" "printable []"
    by (simp_all add: printable_def)
  show ?thesis
    unfolding toString_def using 1 2 3 4 5 6 7 8
    by (simp only: printable_append split: if_splits) simp
qed

lemma new_URL_toString:
  assumes "wf_url q" and "url_host q = Domain d"
  shows "new_URL (toString q) = Parsed q"
proof -
  from assms have w: "scheme q \<in> set [''http'', ''https'', ''ftp'', ''ws'', ''wss'']"
    "clean userinfo_set (username q)" "clean userinfo_set (password q)" "wf_host (Domain d)"
    "case url_port q of None \<Rightarrow> True | Some n \<Rightarrow> n \<le> 65535 \<and> default_port (scheme q) \<noteq> Some n"
    "path q \<noteq> []" "list_all wf_segment (path q)"
    "case query q of None \<Rightarrow> True | Some t \<Rightarrow> clean special_query_set t"
    "case fragment q of None \<Rightarrow> True | Some t \<Rightarrow> clean fragment_set t"
    by (simp_all add: wf_url_def)
  define rest where "rest =
       (if username q \<noteq> [] \<or> password q \<noteq> []
        then username q @ (if password q \<noteq> [] then '':'' @ password q else []) @ ''@'' else []) @
       d @ (case url_port q of None \<Rightarrow> [] | Some p \<Rightarrow> '':'' @ show_radix 10 p) @
       concat (map (\<lambda>seg. CHR ''/'' # seg) (path q)) @
       (case query q of None \<Rightarrow> [] | Some q \<Rightarrow> ''?'' @ q) @
       (case fragment q of None \<Rightarrow> [] | Some f \<Rightarrow> ''#'' @ f)"
  have ts: "toString q = scheme q @ ''://'' @ rest"
    unfolding toString_def rest_def hostname_def pathname_def serialize_host_def assms(2)
    by (simp only: append_assoc host.case)
  have p: "printable (toString q)" by (rule toString_printable [OF assms])
  have a: "is_ascii (toString q)" by (rule printable_is_ascii [OF p])
  have pp: "preprocess (toString q) = toString q" by (rule printable_preprocess [OF p])
  have ss: "split_scheme (toString q) = Some (scheme q, ''//'' @ rest)"
    unfolding ts by (rule split_scheme_special [OF w(1)])
  have ps: "parse_special (scheme q) (''//'' @ rest)
     = Parsed \<lparr>scheme = scheme q, username = username q, password = password q, url_host = Domain d,
               url_port = url_port q, path = path q, query = query q, fragment = fragment q\<rparr>"
    unfolding rest_def by (rule parse_special_serialized [OF w])
  have eta: "\<lparr>scheme = scheme q, username = username q, password = password q, url_host = Domain d,
               url_port = url_port q, path = path q, query = query q, fragment = fragment q\<rparr> = q"
    using assms(2) by (cases q) simp
  have ps': "parse_special (scheme q) (CHR ''/'' # CHR ''/'' # rest) = Parsed q"
    using ps eta by simp
  show ?thesis
    using w(1) by (simp add: new_URL_def a pp ss ps')
qed

subsection \<open>What the parser returns is well formed\<close>

lemma parse_special_wf:
  assumes "parse_special sch rest = Parsed p"
    and "sch \<in> set [''http'', ''https'', ''ftp'', ''ws'', ''wss'']"
    and "is_domain (url_host p)"
  shows "wf_url p"
proof -
  obtain credentials hostport where c: "split_credentials
      (takeWhile (\<lambda>ch. \<not> authority_end ch) (dropWhile is_slash rest)) = (credentials, hostport)"
    by (cases "split_credentials (takeWhile (\<lambda>ch. \<not> authority_end ch) (dropWhile is_slash rest))")
  obtain hn port_text where hp: "split_host_port False hostport = (hn, port_text)"
    by (cases "split_host_port False hostport")
  from assms(1) c hp have k:
    "scheme p = sch \<and> clean userinfo_set (username p) \<and> clean userinfo_set (password p)
     \<and> path p \<noteq> [] \<and> list_all wf_segment (path p)
     \<and> (case query p of None \<Rightarrow> True | Some q \<Rightarrow> clean special_query_set q)
     \<and> (case fragment p of None \<Rightarrow> True | Some f \<Rightarrow> clean fragment_set f)
     \<and> host_parse hn = Ok (url_host p)
     \<and> parse_port sch (case port_text of None \<Rightarrow> [] | Some t \<Rightarrow> t) = Ok (url_port p)"
    by (auto simp: parse_special_def Let_def clean_encoded parse_path_wf
        split: if_splits parse.splits simp del: dropWhile_eq_Nil_conv takeWhile_eq_Nil_iff)
  from assms(3) obtain d where d: "url_host p = Domain d"
    by (cases "url_host p") (auto simp: is_domain_def)
  have 1: "wf_host (url_host p)" using host_parse_wf_domain [of hn d] k d by simp
  have 2: "case url_port p of None \<Rightarrow> True | Some n \<Rightarrow> n \<le> 65535 \<and> default_port (scheme p) \<noteq> Some n"
    using parse_port_wf [of sch _ "url_port p"] k by auto
  show ?thesis unfolding wf_url_def using assms(2) k 1 2 by simp
qed

lemma new_URL_wf:
  assumes "new_URL u = Parsed p" and "is_domain (url_host p)"
  shows "wf_url p"
proof -
  from assms(1) obtain sch rest where
    "sch \<in> set [''http'', ''https'', ''ftp'', ''ws'', ''wss'']" "parse_special sch rest = Parsed p"
    unfolding new_URL_def by (auto split: if_splits option.splits)
  then show ?thesis using parse_special_wf assms(2) by blast
qed

subsection \<open>The steps of the normalizer on a well-formed URL\<close>

lemma show_radix_inj:
  assumes "show_radix 10 n = show_radix 10 m"
  shows "n = m"
proof -
  have "read_radix 10 (show_radix 10 n) = read_radix 10 (show_radix 10 m)" by (simp only: assms)
  then show ?thesis by (simp only: read_show_radix)
qed

lemma show_radix_80: "show_radix 10 80 = ''80''" "show_radix 10 443 = ''443''"
  by code_simp+

lemma port_text:
  "port u = ''80'' \<longleftrightarrow> url_port u = Some 80"
  "port u = ''443'' \<longleftrightarrow> url_port u = Some 443"
proof -
  show "port u = ''80'' \<longleftrightarrow> url_port u = Some 80"
  proof (cases "url_port u")
    case None
    then show ?thesis by (simp add: port_def)
  next
    case (Some n)
    have "show_radix 10 n = ''80'' \<longleftrightarrow> n = 80"
      using show_radix_inj [of n 80] show_radix_80(1) by (auto simp del: show_radix.simps)
    then show ?thesis using Some by (simp add: port_def del: show_radix.simps)
  qed
  show "port u = ''443'' \<longleftrightarrow> url_port u = Some 443"
  proof (cases "url_port u")
    case None
    then show ?thesis by (simp add: port_def)
  next
    case (Some n)
    have "show_radix 10 n = ''443'' \<longleftrightarrow> n = 443"
      using show_radix_inj [of n 443] show_radix_80(2) by (auto simp del: show_radix.simps)
    then show ?thesis using Some by (simp add: port_def del: show_radix.simps)
  qed
qed

lemma protocol_text:
  "protocol u = ''http:'' \<longleftrightarrow> scheme u = ''http''"
  "protocol u = ''https:'' \<longleftrightarrow> scheme u = ''https''"
proof -
  have "scheme u @ '':'' = ''http'' @ '':'' \<longleftrightarrow> scheme u = ''http''" by (rule append_same_eq)
  then show "protocol u = ''http:'' \<longleftrightarrow> scheme u = ''http''" by (simp add: protocol_def)
  have "scheme u @ '':'' = ''https'' @ '':'' \<longleftrightarrow> scheme u = ''https''" by (rule append_same_eq)
  then show "protocol u = ''https:'' \<longleftrightarrow> scheme u = ''https''" by (simp add: protocol_def)
qed

lemma port_steps:
  assumes "u2 = (if protocol u = ''http:'' \<and> port u = ''80'' then set_port [] u else u)"
    and "u3 = (if protocol u2 = ''https:'' \<and> port u2 = ''443'' then set_port [] u2 else u2)"
  shows "u3 = u\<lparr>url_port := kept_port (scheme u) (url_port u)\<rparr>"
proof -
  have n: "u\<lparr>url_port := url_port u\<rparr> = u" by (cases u) simp
  show ?thesis
    unfolding assms using n
    by (auto simp: protocol_text port_text set_port_def kept_port_def)
qed

lemma kept_port_idem: "kept_port sch (kept_port sch prt) = kept_port sch prt"
  by (simp add: kept_port_def)

lemma kept_port_wf:
  "(case prt of None \<Rightarrow> True | Some n \<Rightarrow> n \<le> 65535 \<and> default_port sch \<noteq> Some n) \<Longrightarrow>
   (case kept_port sch prt of None \<Rightarrow> True | Some n \<Rightarrow> n \<le> 65535 \<and> default_port sch \<noteq> Some n)"
  by (simp add: kept_port_def)

lemma endsWith_slash:
  "endsWith (t @ [c]) ''/'' \<longleftrightarrow> c = CHR ''/''"
  by (simp add: endsWith_def)

lemma path_step:
  assumes "segs \<noteq> []" and "list_all wf_segment segs"
  shows "(if endsWith (concat (map (\<lambda>seg. CHR ''/'' # seg) segs)) ''/''
             \<and> length (concat (map (\<lambda>seg. CHR ''/'' # seg) segs)) > 1
          then parse_path (butlast (concat (map (\<lambda>seg. CHR ''/'' # seg) segs))) else segs)
         = trim_slash segs"
proof -
  from assms(1) obtain xs s where segs: "segs = xs @ [s]" by (cases segs rule: rev_cases) auto
  define t where "t = concat (map (\<lambda>seg. CHR ''/'' # seg) xs)"
  have tx: "concat (map (\<lambda>seg. CHR ''/'' # seg) segs) = t @ CHR ''/'' # s"
    by (simp add: segs t_def)
  show ?thesis
  proof (cases "s = []")
    case True
    have e: "endsWith (t @ ''/'') ''/''" by (simp add: endsWith_slash)
    show ?thesis
    proof (cases "xs = []")
      case True
      then show ?thesis using \<open>s = []\<close> by (simp add: segs trim_slash_def endsWith_def)
    next
      case False
      then have tn: "t \<noteq> []" by (cases xs) (simp_all add: t_def)
      from assms(2) have "list_all wf_segment xs" by (simp add: segs)
      from parse_path_pathname [OF False this] have pp: "parse_path t = xs" by (simp add: t_def)
      have l: "length (t @ ''/'') > 1" using tn by (cases t) simp_all
      have lx: "Suc 0 \<le> length xs" using False by (cases xs) simp_all
      show ?thesis
        unfolding tx using \<open>s = []\<close> False e l lx pp by (simp add: segs trim_slash_def)
    qed
  next
    case False
    from assms(2) have "\<not> list_ex is_slash s" by (simp add: segs wf_segment_def)
    then have "last s \<noteq> CHR ''/''" using False by (auto simp: list_ex_iff is_slash_def)
    moreover have "t @ CHR ''/'' # s = (t @ CHR ''/'' # butlast s) @ [last s]" using False by simp
    ultimately have "\<not> endsWith (t @ CHR ''/'' # s) ''/''" using endsWith_slash by metis
    then show ?thesis unfolding tx using False by (simp add: segs trim_slash_def)
  qed
qed

lemma pathname_step:
  assumes "path u \<noteq> []" and "list_all wf_segment (path u)"
  shows "(if endsWith (pathname u) ''/'' \<and> length (pathname u) > 1
          then set_pathname (butlast (pathname u)) u else u)
         = u\<lparr>path := trim_slash (path u)\<rparr>"
proof -
  have k: "(if endsWith (pathname u) ''/'' \<and> length (pathname u) > 1
            then parse_path (butlast (pathname u)) else path u) = trim_slash (path u)"
    unfolding pathname_def by (rule path_step [OF assms])
  show ?thesis
  proof (cases "endsWith (pathname u) ''/'' \<and> length (pathname u) > 1")
    case True
    with k have "parse_path (butlast (pathname u)) = trim_slash (path u)" by (simp only: if_P if_True)
    then show ?thesis using True by (simp only: if_P if_True set_pathname_def)
  next
    case False
    with k have "path u = trim_slash (path u)" by (simp only: if_not_P if_False)
    then have "u\<lparr>path := trim_slash (path u)\<rparr> = u" by (cases u) simp
    then show ?thesis using False by (simp only: if_not_P if_False)
  qed
qed

lemma trim_slash_wf:
  assumes "segs \<noteq> []" and "list_all wf_segment segs"
  shows "trim_slash segs \<noteq> []" "list_all wf_segment (trim_slash segs)"
proof -
  show "trim_slash segs \<noteq> []" using assms(1) by (cases segs rule: rev_cases) (auto simp: trim_slash_def)
  show "list_all wf_segment (trim_slash segs)"
    using assms(2) by (auto simp: trim_slash_def list_all_iff dest: in_set_butlastD)
qed

lemma trim_slash_idem:
  assumes "\<not> (length segs \<ge> 3 \<and> last segs = [] \<and> last (butlast segs) = [])"
  shows "trim_slash (trim_slash segs) = trim_slash segs"
  using assms by (auto simp: trim_slash_def)

lemma hostname_step:
  assumes "wf_host (Domain d)" and "url_host u = Domain d"
  shows "set_hostname (toLowerCase (hostname u)) u = Some u"
proof -
  from assms(1) have d: "d \<noteq> []" "\<not> list_ex forbidden_domain_code_point d" "toLowerCase d = d"
    by (simp_all add: wf_host_def)
  note dc = not_forbidden_chars [OF d(2)]
  have h: "toLowerCase (hostname u) = d" using assms(2) d(3) by (simp add: hostname_def serialize_host_def)
  have t: "takeWhile (\<lambda>ch. \<not> authority_end ch) d = d" using dc(7) by (simp add: takeWhile_eq_all_conv)
  have "\<forall>c \<in> set d. c \<noteq> CHR '':'' \<and> c \<noteq> CHR ''['' \<and> c \<noteq> CHR '']''" using dc(3,4,5) by blast
  then have s: "split_host_port False d = (d, None)" by (rule split_host_port_domain(1))
  have p: "host_parse d = Ok (Domain d)" by (rule host_parse_domain [OF assms(1)])
  have "u\<lparr>url_host := Domain d\<rparr> = u" using assms(2) by (cases u) simp
  then show ?thesis by (simp add: set_hostname_def h t s p d(1))
qed

subsection \<open>The normal form\<close>

lemma searchParams_ascii: "searchParams u = Some l \<Longrightarrow> list_all (\<lambda>(n, v). is_ascii n \<and> is_ascii v) l"
  by (auto simp: searchParams_def Let_def split: if_splits)

lemma searchParams_query: "query a = query b \<Longrightarrow> searchParams a = searchParams b"
  by (simp add: searchParams_def)

lemma kept_params_idem: "kept_params (kept_params l) = kept_params l"
  by (simp add: kept_params_def)

lemma kept_params_ascii:
  "list_all (\<lambda>(n, v). is_ascii n \<and> is_ascii v) l \<Longrightarrow> list_all (\<lambda>(n, v). is_ascii n \<and> is_ascii v) (kept_params l)"
  by (auto simp: kept_params_def list_all_iff)

lemma normalize_parsed_normal_form:
  assumes wf: "wf_url p" and dom: "url_host p = Domain d" and sp: "searchParams p = Some l"
  shows "normalize_parsed p = Some (normal_form l p)"
proof -
  define u1 where "u1 = update_query (foldl (\<lambda>l param. delete_param param l) l trackingParams) p"
  define u2 where "u2 = (if protocol u1 = ''http:'' \<and> port u1 = ''80'' then set_port [] u1 else u1)"
  define u3 where "u3 = (if protocol u2 = ''https:'' \<and> port u2 = ''443'' then set_port [] u2 else u2)"
  define u4 where "u4 = (if endsWith (pathname u3) ''/'' \<and> length (pathname u3) > 1
                    then set_pathname (butlast (pathname u3)) u3 else u3)"
  have n: "normalize_parsed p = set_hostname (toLowerCase (hostname u4)) u4"
    unfolding normalize_parsed_def sp u1_def u2_def u3_def u4_def by (simp only: Let_def option.case)
  have 1: "u1 = p\<lparr>query := (if urlencoded_serialize (kept_params l) = [] then None
                 else Some (urlencoded_serialize (kept_params l)))\<rparr>"
    by (simp add: u1_def update_query_def foldl_delete_param kept_params_def)
  have 3: "u3 = u1\<lparr>url_port := kept_port (scheme u1) (url_port u1)\<rparr>"
    by (rule port_steps [OF u2_def u3_def])
  from wf have w: "path p \<noteq> []" "list_all wf_segment (path p)" "wf_host (Domain d)"
    using dom by (simp_all add: wf_url_def)
  have "path u3 = path p" by (simp add: 3 1)
  with w have "path u3 \<noteq> []" "list_all wf_segment (path u3)" by simp_all
  from pathname_step [OF this] have 4: "u4 = u3\<lparr>path := trim_slash (path u3)\<rparr>" by (simp add: u4_def)
  have nf: "u4 = normal_form l p" by (simp add: 4 3 1 normal_form_def)
  have "url_host u4 = Domain d" using dom by (simp add: nf normal_form_def)
  from hostname_step [OF w(3) this] show ?thesis by (simp add: n nf)
qed

lemma normal_form_wf:
  assumes "wf_url p"
  shows "wf_url (normal_form l p)"
proof -
  from assms have w: "scheme p \<in> set [''http'', ''https'', ''ftp'', ''ws'', ''wss'']"
    "clean userinfo_set (username p)" "clean userinfo_set (password p)" "wf_host (url_host p)"
    "case url_port p of None \<Rightarrow> True | Some n \<Rightarrow> n \<le> 65535 \<and> default_port (scheme p) \<noteq> Some n"
    "path p \<noteq> []" "list_all wf_segment (path p)"
    "case fragment p of None \<Rightarrow> True | Some t \<Rightarrow> clean fragment_set t"
    by (simp_all add: wf_url_def)
  show ?thesis
    unfolding wf_url_def normal_form_def
    using w(1,2,3,4,8) kept_port_wf [OF w(5)] trim_slash_wf [OF w(6,7)]
      clean_serialized_query [of "kept_params l"]
    by (auto split: option.splits)
qed

lemma normal_form_fixed:
  assumes "list_all (\<lambda>(n, v). is_ascii n \<and> is_ascii v) l"
    and "\<not> path_ends_in_two_slashes p"
  shows "searchParams (normal_form l p) = Some (kept_params l)"
    and "normal_form (kept_params l) (normal_form l p) = normal_form l p"
proof -
  have "query (normal_form l p) = query (update_query (kept_params l) p)"
    by (simp add: normal_form_def update_query_def)
  from searchParams_query [OF this]
  show "searchParams (normal_form l p) = Some (kept_params l)"
    using searchParams_update_query [OF kept_params_ascii [OF assms(1)]] by simp
  have "trim_slash (trim_slash (path p)) = trim_slash (path p)"
    using assms(2) by (intro trim_slash_idem) (simp add: path_ends_in_two_slashes_def)
  then show "normal_form (kept_params l) (normal_form l p) = normal_form l p"
    by (simp add: normal_form_def kept_params_idem kept_port_idem)
qed

subsection \<open>Idempotence\<close>

lemma normalizeUrl_example:
  "normalizeUrl ''https://Example.COM/path/?utm_source=x&a=1'' = Some ''https://example.com/path?a=1''"
  by code_simp

lemma new_URL_example:
  "new_URL ''https://Example.COM/path/?utm_source=x&a=1''
     = Parsed \<lparr>scheme = ''https'', username = [], password = [], url_host = Domain ''example.com'',
               url_port = None, path = [''path'', []], query = Some ''utm_source=x&a=1'',
               fragment = None\<rparr>"
  by code_simp

lemma normalize_parsed_fixed:
  assumes wf: "wf_url p" and dom: "url_host p = Domain d" and n: "normalize_parsed p = Some q"
    and two: "\<not> path_ends_in_two_slashes p"
  shows "new_URL (toString q) = Parsed q" and "normalize_parsed q = Some q"
proof -
  from n obtain l where sp: "searchParams p = Some l"
    by (auto simp: normalize_parsed_def split: option.splits)
  from normalize_parsed_normal_form [OF wf dom sp] n have q: "q = normal_form l p" by simp
  have wq: "wf_url q" unfolding q by (rule normal_form_wf [OF wf])
  have dq: "url_host q = Domain d" using dom by (simp add: q normal_form_def)
  show "new_URL (toString q) = Parsed q" by (rule new_URL_toString [OF wq dq])
  note fx = normal_form_fixed [OF searchParams_ascii [OF sp] two]
  have "normalize_parsed q = Some (normal_form (kept_params l) q)"
    using normalize_parsed_normal_form [OF wq dq] fx(1) by (simp add: q)
  then show "normalize_parsed q = Some q" using fx(2) by (simp add: q)
qed

text \<open>
  Within the modelled fragment of the URL class (\<open>normalizeUrl\<close> answers \<open>Some\<close>),
  \<open>normalizeUrl\<close> returns its own output unchanged for every string that does not parse as
  a URL (it is returned as it is) and for every URL whose host is a domain name and whose
  path does not end in two slashes after another segment.
\<close>

lemma normalizeUrl_idempotent:
  assumes "normalizeUrl u = Some v"
    and "\<forall>p. new_URL u = Parsed p \<longrightarrow> is_domain (url_host p) \<and> \<not> path_ends_in_two_slashes p"
  shows "normalizeUrl v = Some v"
proof (cases "new_URL u")
  case (Parsed p)
  with assms(2) have dom: "is_domain (url_host p)" and two: "\<not> path_ends_in_two_slashes p" by simp_all
  from dom obtain d where d: "url_host p = Domain d" by (cases "url_host p") (auto simp: is_domain_def)
  have wf: "wf_url p" by (rule new_URL_wf [OF Parsed dom])
  from assms(1) Parsed obtain q where q: "normalize_parsed p = Some q" and v: "v = toString q"
    by (auto simp: normalizeUrl_def)
  from normalize_parsed_fixed [OF wf d q two] show ?thesis by (simp add: normalizeUrl_def v)
next
  case Failure
  with assms(1) have "v = u" by (simp add: normalizeUrl_def)
  with assms(1) show ?thesis by simp
next
  case (Foreign sch)
  with assms(1) show ?thesis by (simp add: normalizeUrl_def)
next
  case Unmodelled
  with assms(1) show ?thesis by (simp add: normalizeUrl_def)
qed

lemma normalizeUrl_idempotent_example:
  "normalizeUrl ''https://Example.COM/path/?utm_source=x&a=1'' = Some ''https://example.com/path?a=1''
   \<and> normalizeUrl ''https://example.com/path?a=1'' = Some ''https://example.com/path?a=1''"
  using normalizeUrl_idempotent [of "''https://Example.COM/path/?utm_source=x&a=1''"
      "''https://example.com/path?a=1''"]
  by (simp add: normalizeUrl_example new_URL_example is_domain_def path_ends_in_two_slashes_def)

text \<open>
  Claim C7. \<open>normalizeUrl\<close> should be idempotent on every URL string. The step commented
  "Remove trailing slash" removes one slash, so a path that ends in two slashes loses one
  of them at each application: \<open>https://example.com/a//\<close> is normalized to
  \<open>https://example.com/a/\<close>, which still ends in a slash and is normalized to
  \<open>https://example.com/a\<close>.
\<close>

theorem normalizeUrl_double_slash:
  "normalizeUrl ''https://example.com/a//'' = Some ''https://example.com/a/''
   \<and> normalizeUrl ''https://example.com/a/'' = Some ''https://example.com/a''"
  by (rule conjI) code_simp+

section \<open>Properties of the redirect dispatcher\<close>

lemma isValidRedirectUrl_example: "isValidRedirectUrl ''https://example.com/'' = Some True"
  by code_simp

lemma getRedirectType_example: "getRedirectType ''https://example.com/'' = Some temporary"
  by code_simp

lemma isValidRedirectUrl_ipv6_loopback: "isValidRedirectUrl ''http://[::1]/x'' = Some True"
  by code_simp

lemma getRedirectType_ipv6_loopback: "getRedirectType ''http://[::1]/x'' = Some temporary"
  by code_simp

lemma code_format_ok_abc: "code_format_ok ''abc''"
  by (simp add: code_format_ok_def is_alnum_def is_alpha_def is_digit_def char_between_def)

lemma findByCode_single:
  "findByCode c (store_of [example_entity c u e])
   = (Some (example_entity c u e),
      (store_of [example_entity c u e])\<lparr>cache := cacheUrl (example_entity c u e) []\<rparr>)"
  by (simp add: findByCode_def store_of_def findOneByCode_def example_entity_def)

lemma valid_has_type:
  "isValidRedirectUrl u = Some True \<Longrightarrow> \<exists>t. getRedirectType u = Some t"
  by (auto simp: isValidRedirectUrl_def getRedirectType_def Let_def split: parsed.splits)

text \<open>
  The response to a request for a record that is found, not expired and passes the
  open-redirect guard, whatever the side effects do.
\<close>

lemma redirect_response:
  assumes "code_format_ok c" "findByCode c st = (Some u, st1)" "\<not> isExpired now u"
    "isValidRedirectUrl (original u) = Some True"
  shows "map_option fst (redirect fx now c ip ua ref st)
         = Some (Redirect (if getRedirectType (original u) = Some permanent then 301 else 302)
                   (original u) security_headers)"
proof -
  from valid_has_type [OF assms(4)] obtain t where t: "getRedirectType (original u) = Some t" ..
  show ?thesis
    using assms t by (simp add: redirect_def Let_def)
qed

text \<open>A record that is found is answered with 410 exactly when its expiry is before the clock.\<close>

lemma redirect_gone_iff:
  assumes "code_format_ok c" "findByCode c st = (Some u, st1)"
  shows "map_option fst (redirect fx now c ip ua ref st) = Some (Json 410 ''This short URL has expired'')
         \<longleftrightarrow> (\<exists>e. expiresAt u = Some e \<and> e < now)"
  using assms
  by (auto simp: redirect_def isExpired_def Let_def split: option.splits bool.splits)

text \<open>What the open-redirect guard does reject.\<close>

lemma isValidRedirectUrl_rejects:
  assumes "new_URL u = Parsed p"
    and "protocol p \<notin> set [''http:'', ''https:''] \<or> toLowerCase (hostname p) \<in> set [''localhost'', ''127.0.0.1'']
         \<or> isPrivateIp (toLowerCase (hostname p))
         \<or> list_ex (\<lambda>tld. endsWith (toLowerCase (hostname p)) tld) suspiciousTlds"
  shows "isValidRedirectUrl u = Some False"
  using assms by (auto simp: isValidRedirectUrl_def Let_def)

text \<open>
  Claim C2. A redirect for a record whose \<open>expiresAt\<close> equals the clock should be answered
  with 410. \<open>isExpired\<close> tests \<open>now > expiresAt\<close>, so at the instant of expiry (both 1000 ms
  here) the record is not expired yet and the request is redirected with 302.
\<close>

theorem redirect_at_expiry_instant:
  "map_option fst (redirect no_failures 1000 ''abc'' ''203.0.113.7'' ''Mozilla/5.0'' None
      (store_of [example_entity ''abc'' ''https://example.com/'' (Some 1000)]))
   = Some (Redirect 302 ''https://example.com/'' security_headers)"
proof -
  have e: "\<not> isExpired 1000 (example_entity ''abc'' ''https://example.com/'' (Some 1000))"
    by (simp add: isExpired_def example_entity_def)
  have o: "original (example_entity ''abc'' ''https://example.com/'' (Some 1000)) = ''https://example.com/''"
    by (simp add: example_entity_def)
  show ?thesis
    using redirect_response [OF code_format_ok_abc findByCode_single e]
    by (simp add: o isValidRedirectUrl_example getRedirectType_example)
qed

text \<open>
  Claim C5. A record whose original URL has a loopback host should never be redirected to.
  For the IPv6 loopback the URL class reports the host name with its brackets, \<open>[::1]\<close>, which
  the guard compares with \<open>::1\<close>; the record with the original URL \<open>http://[::1]/x\<close> passes
  the guard and the request is redirected with 302.
\<close>

theorem redirect_to_ipv6_loopback:
  "map_option fst (redirect no_failures 1000 ''abc'' ''203.0.113.7'' ''Mozilla/5.0'' None
      (store_of [example_entity ''abc'' ''http://[::1]/x'' None]))
   = Some (Redirect 302 ''http://[::1]/x'' security_headers)"
proof -
  have e: "\<not> isExpired 1000 (example_entity ''abc'' ''http://[::1]/x'' None)"
    by (simp add: isExpired_def example_entity_def)
  have o: "original (example_entity ''abc'' ''http://[::1]/x'' None) = ''http://[::1]/x''"
    by (simp add: example_entity_def)
  show ?thesis
    using redirect_response [OF code_format_ok_abc findByCode_single e]
    by (simp add: o isValidRedirectUrl_ipv6_loopback getRedirectType_ipv6_loopback)
qed

text \<open>
  Claim C6. For a request whose record is found, is not expired and passes the
  open-redirect guard, the response is the redirect to the original URL with the status
  chosen from its host, whether or not the hit-count update, the user-agent parser, the geo
  lookup or the publish to the event bus fail: it is the response given when none fails.
\<close>

theorem redirect_ignores_side_effect_failures:
  assumes "code_format_ok c" "findByCode c st = (Some u, st1)" "\<not> isExpired now u"
    "isValidRedirectUrl (original u) = Some True"
  shows "map_option fst (redirect fx now c ip ua ref st)
           = Some (Redirect (if getRedirectType (original u) = Some permanent then 301 else 302)
                     (original u) security_headers)
         \<and> map_option fst (redirect fx now c ip ua ref st)
           = map_option fst (redirect no_failures now c ip ua ref st)"
proof (intro conjI)
  show "map_option fst (redirect fx now c ip ua ref st)
           = Some (Redirect (if getRedirectType (original u) = Some permanent then 301 else 302)
                     (original u) security_headers)"
    by (rule redirect_response [OF assms])
  show "map_option fst (redirect fx now c ip ua ref st)
           = map_option fst (redirect no_failures now c ip ua ref st)"
    by (simp only: redirect_response [OF assms])
qed

theorem redirect_ignores_side_effect_failures_witness:
  "code_format_ok ''abc''
   \<and> findByCode ''abc'' (store_of [example_entity ''abc'' ''https://example.com/'' None])
       = (Some (example_entity ''abc'' ''https://example.com/'' None),
          (store_of [example_entity ''abc'' ''https://example.com/'' None])
            \<lparr>cache := cacheUrl (example_entity ''abc'' ''https://example.com/'' None) []\<rparr>)
   \<and> \<not> isExpired 1000 (example_entity ''abc'' ''https://example.com/'' None)
   \<and> isValidRedirectUrl (original (example_entity ''abc'' ''https://example.com/'' None)) = Some True
   \<and> map_option fst (redirect all_fail 1000 ''abc'' ''203.0.113.7'' ''Mozilla/5.0'' None
        (store_of [example_entity ''abc'' ''https://example.com/'' None]))
      = Some (Redirect 302 ''https://example.com/'' security_headers)"
proof -
  have e: "\<not> isExpired 1000 (example_entity ''abc'' ''https://example.com/'' None)"
    by (simp add: isExpired_def example_entity_def)
  have o: "original (example_entity ''abc'' ''https://example.com/'' None) = ''https://example.com/''"
    by (simp add: example_entity_def)
  have v: "isValidRedirectUrl (original (example_entity ''abc'' ''https://example.com/'' None)) = Some True"
    by (simp add: o isValidRedirectUrl_example)
  have s: "(if getRedirectType ''https://example.com/'' = Some permanent then 301 else 302) = (302::nat)"
    by (simp add: getRedirectType_example)
  have r: "map_option fst (redirect all_fail 1000 ''abc'' ''203.0.113.7'' ''Mozilla/5.0'' None
        (store_of [example_entity ''abc'' ''https://example.com/'' None]))
      = Some (Redirect 302 ''https://example.com/'' security_headers)"
    using conjunct1 [OF redirect_ignores_side_effect_failures [OF code_format_ok_abc findByCode_single e v,
        of all_fail "''203.0.113.7''" "''Mozilla/5.0''" None]]
    by (simp only: o s)
  show ?thesis
    by (intro conjI) (rule code_format_ok_abc findByCode_single e v r)+
qed

end
